theory Spec2Isabelle
  imports Complex_Main "HOL-Library.Sublist" "HOL-Library.Log_Nat"
begin

section \<open>Photo restoration driver: filesystem, engine invocation, output resolution\<close>

text \<open>
  The development embeds \<^verbatim>\<open>photo_restoration_runner.py\<close> (\<^verbatim>\<open>run_command\<close>,
  \<^verbatim>\<open>make_grid\<close>, \<^verbatim>\<open>restore_photos\<close>) and the two drivers of \<^verbatim>\<open>gradio_app.py\<close>
  (\<^verbatim>\<open>process_single_image\<close>, \<^verbatim>\<open>process_multiple_images\<close>).

  The Python code works on the file system and starts an external process. Both are
  made explicit: a \<open>world\<close> holds the file system and the trace of every operating
  system call the code makes, in call order. An exception of a library call is a value
  \<open>Inl e\<close>; the world is kept when an exception is raised, as it is in Python.
\<close>

subsection \<open>Paths, images, the file system\<close>

text \<open>
  A path is the list of its components: \<^verbatim>\<open>os.path.join(d, "final_output")\<close> is
  \<open>d @ [''final_output'']\<close>. The empty list is the empty path name, which names no
  file; a path of one component lies in the directory every path starts from (the
  working directory), which always exists. Every name the code joins is
  a constant without a separator, an entry returned by \<^verbatim>\<open>os.listdir\<close>, or
  \<^verbatim>\<open>image_<i><ext>\<close>, so a join never leaves its first argument.
\<close>

type_synonym path = "string list"

text \<open>
  An image is what the code reads of it: its size and its mode. The mode gives the
  number of bands (an image of one band is a two-dimensional array) and decides whether
  the image can be written as a JPEG file.
\<close>

datatype pil_mode =
    Mode_1 | Mode_L | Mode_P | Mode_I | Mode_F | Mode_I16 | Mode_LA | Mode_La | Mode_PA
  | Mode_RGB | Mode_YCbCr | Mode_LAB | Mode_HSV
  | Mode_RGBA | Mode_RGBa | Mode_RGBX | Mode_CMYK

record image =
  width :: nat
  height :: nat
  mode :: pil_mode

fun mode_bands :: "pil_mode \<Rightarrow> nat" where
  "mode_bands Mode_1 = 1"
| "mode_bands Mode_L = 1"
| "mode_bands Mode_P = 1"
| "mode_bands Mode_I = 1"
| "mode_bands Mode_F = 1"
| "mode_bands Mode_I16 = 1"
| "mode_bands Mode_LA = 2"
| "mode_bands Mode_La = 2"
| "mode_bands Mode_PA = 2"
| "mode_bands Mode_RGB = 3"
| "mode_bands Mode_YCbCr = 3"
| "mode_bands Mode_LAB = 3"
| "mode_bands Mode_HSV = 3"
| "mode_bands Mode_RGBA = 4"
| "mode_bands Mode_RGBa = 4"
| "mode_bands Mode_RGBX = 4"
| "mode_bands Mode_CMYK = 4"

definition bands :: "image \<Rightarrow> nat" where
  "bands im = mode_bands (mode im)"

text \<open>
  The modes the JPEG encoder of PIL accepts, with the mode the written file has when it
  is opened again; any other mode cannot be written.
\<close>

fun jpeg_mode :: "pil_mode \<Rightarrow> pil_mode option" where
  "jpeg_mode Mode_1 = Some Mode_L"
| "jpeg_mode Mode_L = Some Mode_L"
| "jpeg_mode Mode_RGB = Some Mode_RGB"
| "jpeg_mode Mode_RGBX = Some Mode_RGB"
| "jpeg_mode Mode_YCbCr = Some Mode_YCbCr"
| "jpeg_mode Mode_CMYK = Some Mode_CMYK"
| "jpeg_mode m = None"

text \<open>
  A file holds \<open>Some img\<close> when \<^verbatim>\<open>PIL.Image.open\<close> can identify it, \<open>None\<close>
  otherwise. The file system is a list of entries; \<^verbatim>\<open>os.listdir\<close> returns the entries
  of a directory in the order of this list (Python promises no particular order).
\<close>

datatype node = Dir | File "image option"

type_synonym filesystem = "(path \<times> node) list"

datatype error =
    FileExistsError | FileNotFoundError | NotADirectoryError | IsADirectoryError
  | SameFileError | UnidentifiedImageError | ZeroDivisionError | ValueError | IndexError
  | OSError | UnicodeDecodeError

datatype event =
    Exists path | IsDir path | ListDir path | RmTree path | MakeDirs path
  | MkDTemp path | Cleanup path | Copy path path | OpenImage path | SaveImage path
  | RunCommand string path

record world =
  disk :: filesystem
  trace :: "event list"

definition lookup :: "filesystem \<Rightarrow> path \<Rightarrow> node option" where
  "lookup fs p = map_of fs p"

definition fs_exists :: "filesystem \<Rightarrow> path \<Rightarrow> bool" where
  "fs_exists fs p = (lookup fs p \<noteq> None)"

definition fs_isdir :: "filesystem \<Rightarrow> path \<Rightarrow> bool" where
  "fs_isdir fs p = (lookup fs p = Some Dir)"

text \<open>The directory a name is created in exists: it is the start or a directory.\<close>

definition parent_is_dir :: "filesystem \<Rightarrow> path \<Rightarrow> bool" where
  "parent_is_dir fs p = (butlast p = [] \<or> fs_isdir fs (butlast p))"

definition fs_listdir :: "filesystem \<Rightarrow> path \<Rightarrow> string list" where
  "fs_listdir fs p = map (\<lambda>e. last (fst e)) (filter (\<lambda>e. fst e \<noteq> [] \<and> butlast (fst e) = p) fs)"

definition fs_remove_tree :: "filesystem \<Rightarrow> path \<Rightarrow> filesystem" where
  "fs_remove_tree fs p = filter (\<lambda>e. \<not> prefix p (fst e)) fs"

definition fs_write :: "filesystem \<Rightarrow> path \<Rightarrow> node \<Rightarrow> filesystem" where
  "fs_write fs p n = filter (\<lambda>e. fst e \<noteq> p) fs @ [(p, n)]"

text \<open>The directories \<^verbatim>\<open>os.makedirs(name)\<close> has to create: \<open>name\<close> and its missing ancestors.\<close>

definition missing_dirs :: "filesystem \<Rightarrow> path \<Rightarrow> path list" where
  "missing_dirs fs name = filter (\<lambda>q. \<not> fs_exists fs q) (tl (prefixes name))"

definition blocked_by_file :: "filesystem \<Rightarrow> path \<Rightarrow> bool" where
  "blocked_by_file fs name =
     list_ex (\<lambda>q. fs_exists fs q \<and> \<not> fs_isdir fs q) (butlast (prefixes name))"

text \<open>
  The error of a call on a path that does not exist: a path that leads through a file
  gives NotADirectoryError, any other missing path FileNotFoundError.
\<close>

definition absent_error :: "filesystem \<Rightarrow> path \<Rightarrow> error" where
  "absent_error fs p = (if blocked_by_file fs p then NotADirectoryError else FileNotFoundError)"

subsection \<open>Computations on the world\<close>

type_synonym 'a io = "world \<Rightarrow> (error + 'a) \<times> world"

definition ret :: "'a \<Rightarrow> 'a io" where
  "ret x = (\<lambda>w. (Inr x, w))"

definition raise :: "error \<Rightarrow> 'a io" where
  "raise e = (\<lambda>w. (Inl e, w))"

definition bnd :: "'a io \<Rightarrow> ('a \<Rightarrow> 'b io) \<Rightarrow> 'b io" where
  "bnd m f = (\<lambda>w. case m w of (Inl e, w') \<Rightarrow> (Inl e, w') | (Inr x, w') \<Rightarrow> f x w')"

definition record_event :: "event \<Rightarrow> world \<Rightarrow> world" where
  "record_event e w = w\<lparr>trace := trace w @ [e]\<rparr>"

definition os_path_exists :: "path \<Rightarrow> bool io" where
  "os_path_exists p = (\<lambda>w. (Inr (fs_exists (disk w) p), record_event (Exists p) w))"

definition os_path_isdir :: "path \<Rightarrow> bool io" where
  "os_path_isdir p = (\<lambda>w. (Inr (fs_isdir (disk w) p), record_event (IsDir p) w))"

definition os_listdir :: "path \<Rightarrow> string list io" where
  "os_listdir p = (\<lambda>w.
     (if fs_isdir (disk w) p then Inr (fs_listdir (disk w) p)
      else if fs_exists (disk w) p then Inl NotADirectoryError
      else Inl (absent_error (disk w) p),
      record_event (ListDir p) w))"

definition shutil_rmtree :: "path \<Rightarrow> unit io" where
  "shutil_rmtree p = (\<lambda>w.
     if fs_isdir (disk w) p
     then (Inr (), record_event (RmTree p) (w\<lparr>disk := fs_remove_tree (disk w) p\<rparr>))
     else if fs_exists (disk w) p then (Inl NotADirectoryError, record_event (RmTree p) w)
     else (Inl (absent_error (disk w) p), record_event (RmTree p) w))"

text \<open>
  \<^verbatim>\<open>os.makedirs(name, exist_ok)\<close>: an ancestor that is a file gives NotADirectoryError;
  an existing \<open>name\<close> gives FileExistsError unless \<open>exist_ok\<close> is set and \<open>name\<close> is a
  directory; the empty name gives FileNotFoundError.
\<close>

definition os_makedirs :: "bool \<Rightarrow> path \<Rightarrow> unit io" where
  "os_makedirs exist_ok name = (\<lambda>w.
     let fs = disk w; w' = record_event (MakeDirs name) w in
     if name = [] then (Inl FileNotFoundError, w')
     else if blocked_by_file fs name then (Inl NotADirectoryError, w')
     else if fs_exists fs name then
       (if exist_ok \<and> fs_isdir fs name then (Inr (), w') else (Inl FileExistsError, w'))
     else (Inr (), w'\<lparr>disk := fs @ map (\<lambda>q. (q, Dir)) (missing_dirs fs name)\<rparr>))"

subsection \<open>The external engine and \<^verbatim>\<open>run_command\<close>\<close>

text \<open>
  The engine is the process started by \<^verbatim>\<open>subprocess.run\<close>: given the command line and
  the working directory it changes the file system, gives a return code and writes
  output. The call blocks: the code continues with the file system the process left.
  The output is captured and, as \<^verbatim>\<open>text=True\<close> asks, decoded when the process has
  ended; output that is not text in the encoding of the locale gives UnicodeDecodeError.
\<close>

record completed_process =
  returncode :: int
  output_is_text :: bool
  disk_left :: filesystem

type_synonym engine = "string \<Rightarrow> path \<Rightarrow> filesystem \<Rightarrow> completed_process"

definition run_command :: "engine \<Rightarrow> string \<Rightarrow> path \<Rightarrow> bool \<Rightarrow> bool io" where
  "run_command eng command cwd check = (\<lambda>w.
     let w' = record_event (RunCommand command cwd) w in
     if \<not> fs_isdir (disk w) cwd then
       (Inl (if fs_exists (disk w) cwd then NotADirectoryError
             else absent_error (disk w) cwd), w')
     else
       (let result = eng command cwd (disk w);
            w'' = w'\<lparr>disk := disk_left result\<rparr>
        in if \<not> output_is_text result then (Inl UnicodeDecodeError, w'')
           else if check \<and> returncode result \<noteq> 0 then (Inr False, w'')
           else (Inr True, w'')))"

subsection \<open>Text of numbers and paths\<close>

definition digit_char :: "nat \<Rightarrow> char" where
  "digit_char d = char_of (48 + d)"

fun str_nat :: "nat \<Rightarrow> string" where
  "str_nat n = (if n < 10 then [digit_char n] else str_nat (n div 10) @ [digit_char (n mod 10)])"

declare str_nat.simps [simp del]

definition str_int :: "int \<Rightarrow> string" where
  "str_int i = (if i < 0 then CHR ''-'' # str_nat (nat (- i)) else str_nat (nat i))"

text \<open>The text of a path as it is put into the command line: its components joined by a slash.\<close>

fun path_str :: "path \<Rightarrow> string" where
  "path_str [] = []"
| "path_str [c] = c"
| "path_str (c # cs) = c @ CHR ''/'' # path_str cs"

subsection \<open>\<^verbatim>\<open>restore_photos\<close>\<close>

definition photo_restoration_dir :: path where
  "photo_restoration_dir = [''photo_restoration'']"

definition restore_cmd :: "path \<Rightarrow> path \<Rightarrow> int \<Rightarrow> bool \<Rightarrow> bool \<Rightarrow> string" where
  "restore_cmd input_folder output_folder gpu_id with_scratch hr =
     (let cmd = ''python run.py --input_folder '' @ path_str input_folder
                @ '' --output_folder '' @ path_str output_folder
                @ '' --GPU '' @ str_int gpu_id;
          cmd = (if with_scratch then cmd @ '' --with_scratch'' else cmd);
          cmd = (if hr then cmd @ '' --HR'' else cmd)
      in cmd)"

text \<open>Lines 78 to 81: remove the output directory when it is one, then create it.\<close>

definition prepare_output :: "path \<Rightarrow> unit io" where
  "prepare_output output_folder =
     bnd (os_path_isdir output_folder) (\<lambda>d.
     bnd (if d then shutil_rmtree output_folder else ret ()) (\<lambda>_.
     os_makedirs False output_folder))"

definition restore_photos :: "engine \<Rightarrow> path \<Rightarrow> path \<Rightarrow> int \<Rightarrow> bool \<Rightarrow> bool \<Rightarrow> bool io" where
  "restore_photos eng input_folder output_folder gpu_id with_scratch hr =
     bnd (os_path_exists photo_restoration_dir) (\<lambda>e1.
     if \<not> e1 then ret False
     else
       bnd (os_path_exists (photo_restoration_dir @ [''run.py''])) (\<lambda>e2.
       if \<not> e2 then ret False
       else
         bnd (prepare_output output_folder) (\<lambda>_.
         run_command eng (restore_cmd input_folder output_folder gpu_id with_scratch hr)
           photo_restoration_dir True)))"

subsection \<open>Python floats, as far as \<^verbatim>\<open>make_grid\<close> uses them\<close>

text \<open>
  A float is the rational number it denotes. \<open>float_round\<close> is rounding to the nearest
  number with a 53 bit significand, ties to the even significand: IEEE 754 binary64
  between the smallest normal number and the overflow threshold, the range every
  computation on image sizes stays in. True division of two integers and the product of
  two floats are the exact results rounded once; \<^verbatim>\<open>int(x)\<close> truncates towards zero.
\<close>

definition round_half_even :: "rat \<Rightarrow> int" where
  "round_half_even x =
     (let f = \<lfloor>x\<rfloor>; r = x - of_int f
      in if r < 1 / 2 then f else if 1 / 2 < r then f + 1 else if even f then f else f + 1)"

definition pow2 :: "int \<Rightarrow> rat" where
  "pow2 e = (if 0 \<le> e then 2 ^ nat e else 1 / 2 ^ nat (- e))"

definition float_exponent :: "rat \<Rightarrow> int" where
  "float_exponent q =
     (case quotient_of q of (a, b) \<Rightarrow>
        let d = bitlen a - bitlen b in if pow2 d \<le> q then d - 52 else d - 53)"

definition float_round :: "rat \<Rightarrow> rat" where
  "float_round q =
     (if q = 0 then 0
      else if q < 0 then - (of_int (round_half_even (- q / pow2 (float_exponent (- q))))
                             * pow2 (float_exponent (- q)))
      else of_int (round_half_even (q / pow2 (float_exponent q))) * pow2 (float_exponent q))"

definition py_truediv :: "int \<Rightarrow> int \<Rightarrow> error + rat" where
  "py_truediv a b = (if b = 0 then Inl ZeroDivisionError else Inr (float_round (of_int a / of_int b)))"

definition py_int_times_float :: "int \<Rightarrow> rat \<Rightarrow> rat" where
  "py_int_times_float n x = float_round (float_round (of_int n) * x)"

definition py_int_of_float :: "rat \<Rightarrow> int" where
  "py_int_of_float x = (if 0 \<le> x then \<lfloor>x\<rfloor> else \<lceil>x\<rceil>)"

subsection \<open>\<^verbatim>\<open>make_grid\<close>\<close>

text \<open>
  \<^verbatim>\<open>Image.resize(size)\<close> returns a copy when the image has that size already and
  refuses a size with a side below 1.
\<close>

definition pil_resize :: "image \<Rightarrow> int \<times> int \<Rightarrow> error + image" where
  "pil_resize im sz =
     (if (int (width im), int (height im)) = sz then Inr im
      else if fst sz < 1 \<or> snd sz < 1 then Inl ValueError
      else Inr (im\<lparr>width := nat (fst sz), height := nat (snd sz)\<rparr>))"

text \<open>
  Lines 33 to 43. An array has three dimensions when the image has two bands or more.
  \<^verbatim>\<open>I1[:,:,:3]\<close> of a two band image cannot be stored into three channels (ValueError);
  \<^verbatim>\<open>I2[:,:,:3]\<close> of a one band image has one index too many (IndexError).
  \<^verbatim>\<open>fromarray\<close> makes an RGB image of three channels and an L image of a
  two-dimensional array.
\<close>

definition combine :: "image \<Rightarrow> image \<Rightarrow> error + image" where
  "combine I1 I2 =
     (let H = height I1; W = width I1 in
      if 2 \<le> bands I1 then
        (case pil_resize I2 (int W, int H) of
           Inl e \<Rightarrow> Inl e
         | Inr I2r \<Rightarrow>
             if bands I1 = 2 then Inl ValueError
             else if bands I2r < 2 then Inl IndexError
             else if bands I2r = 2 then Inl ValueError
             else Inr \<lparr>width = W * 2, height = H, mode = Mode_RGB\<rparr>)
      else
        (case pil_resize I2 (int W, int H) of
           Inl e \<Rightarrow> Inl e
         | Inr I2r \<Rightarrow> Inr \<lparr>width = W * 2, height = H, mode = Mode_L\<rparr>))"

definition W_base :: int where
  "W_base = 600"

definition make_grid :: "image \<Rightarrow> image \<Rightarrow> bool \<Rightarrow> error + image" where
  "make_grid I1 I2 resize =
     (let H = height I1; W = width I1 in
      case combine I1 I2 of
        Inl e \<Rightarrow> Inl e
      | Inr I_combine \<Rightarrow>
          if resize then
            (case py_truediv W_base (int W * 2) of
               Inl e \<Rightarrow> Inl e
             | Inr ratio \<Rightarrow>
                 let H_new = py_int_of_float (py_int_times_float (int H) ratio)
                 in pil_resize I_combine (W_base, H_new))
          else Inr I_combine)"

subsection \<open>Images on disk, copies, temporary directories\<close>

definition image_open :: "path \<Rightarrow> image io" where
  "image_open p = (\<lambda>w.
     (case lookup (disk w) p of
        None \<Rightarrow> Inl (absent_error (disk w) p)
      | Some Dir \<Rightarrow> Inl IsADirectoryError
      | Some (File None) \<Rightarrow> Inl UnidentifiedImageError
      | Some (File (Some im)) \<Rightarrow> Inr im,
      record_event (OpenImage p) w))"

text \<open>Opening a file for writing needs its directory.\<close>

definition write_file :: "path \<Rightarrow> node \<Rightarrow> world \<Rightarrow> (error + unit) \<times> world" where
  "write_file p n w =
     (if p = [] then (Inl FileNotFoundError, w)
      else if fs_isdir (disk w) p then (Inl IsADirectoryError, w)
      else if \<not> parent_is_dir (disk w) p then
        (Inl (if fs_exists (disk w) (butlast p) then NotADirectoryError
              else absent_error (disk w) (butlast p)), w)
      else (Inr (), w\<lparr>disk := fs_write (disk w) p n\<rparr>))"

text \<open>
  \<^verbatim>\<open>image.save(path, quality=100)\<close>. Both calls of the code write a name ending in
  \<^verbatim>\<open>.jpg\<close>, so the format is JPEG. The JPEG writer refuses an empty image with
  ValueError and a mode it cannot write with OSError, and the encoder fails with OSError
  on a side longer than 65500 pixels.
\<close>

definition jpeg_save :: "image \<Rightarrow> error + image" where
  "jpeg_save im =
     (if width im = 0 \<or> height im = 0 then Inl ValueError
      else case jpeg_mode (mode im) of
             None \<Rightarrow> Inl OSError
           | Some m \<Rightarrow>
               if 65500 < width im \<or> 65500 < height im then Inl OSError
               else Inr (im\<lparr>mode := m\<rparr>))"

text \<open>
  The file is opened for writing before the writer is called. When the writer fails,
  PIL removes the file again if the call had created it; a file that was there before
  is left truncated.
\<close>

definition image_save :: "image \<Rightarrow> path \<Rightarrow> unit io" where
  "image_save im p = (\<lambda>w.
     let w' = record_event (SaveImage p) w in
     case jpeg_save im of
       Inr saved \<Rightarrow> write_file p (File (Some saved)) w'
     | Inl e \<Rightarrow>
         (case write_file p (File None) w' of
            (Inl e', w'') \<Rightarrow> (Inl e', w'')
          | (Inr u, w'') \<Rightarrow> (Inl e, if fs_exists (disk w) p then w'' else w')))"

text \<open>
  \<^verbatim>\<open>shutil.copy2(src, dst)\<close>: a destination that is a directory stands for the entry
  of the source's name in it; copying a file onto itself gives SameFileError; then the
  source is opened, and then the destination.
\<close>

definition shutil_copy2 :: "path \<Rightarrow> path \<Rightarrow> unit io" where
  "shutil_copy2 src dst = (\<lambda>w.
     let w' = record_event (Copy src dst) w;
         target = (if fs_isdir (disk w) dst \<and> src \<noteq> [] then dst @ [last src] else dst)
     in
     if src = [] then (Inl FileNotFoundError, w')
     else
       case lookup (disk w) src of
         None \<Rightarrow> (Inl (absent_error (disk w) src), w')
       | Some Dir \<Rightarrow> (Inl IsADirectoryError, w')
       | Some (File c) \<Rightarrow>
           if target = src then (Inl SameFileError, w')
           else write_file target (File c) w')"

text \<open>
  \<^verbatim>\<open>with tempfile.TemporaryDirectory() as temp_dir\<close>: the library creates a directory
  that did not exist, the body runs, and the directory is removed with everything in
  it however the body ends. The name is the library's choice, so it is a parameter.
\<close>

definition with_temporary_directory :: "path \<Rightarrow> 'a io \<Rightarrow> 'a io" where
  "with_temporary_directory temp_dir body = (\<lambda>w.
     let w0 = record_event (MkDTemp temp_dir) w in
     if temp_dir = [] \<or> fs_exists (disk w) temp_dir then (Inl FileExistsError, w0)
     else if \<not> parent_is_dir (disk w) temp_dir then
       (Inl (if fs_exists (disk w) (butlast temp_dir) then NotADirectoryError
             else absent_error (disk w) (butlast temp_dir)), w0)
     else
       (case body (w0\<lparr>disk := disk w @ [(temp_dir, Dir)]\<rparr>) of
          (r, w1) \<Rightarrow>
            (r, record_event (Cleanup temp_dir) (w1\<lparr>disk := fs_remove_tree (disk w1) temp_dir\<rparr>))))"

subsection \<open>\<^verbatim>\<open>process_single_image\<close>\<close>

definition char_lower :: "char \<Rightarrow> char" where
  "char_lower c =
     (let n = (of_char c :: nat) in if 65 \<le> n \<and> n \<le> 90 then char_of (n + 32) else c)"

text \<open>\<^verbatim>\<open>file.lower().endswith(('.jpg', '.jpeg', '.png', '.bmp'))\<close>\<close>

definition is_image_name :: "string \<Rightarrow> bool" where
  "is_image_name file =
     (let l = map char_lower file
      in suffix ''.jpg'' l \<or> suffix ''.jpeg'' l \<or> suffix ''.png'' l \<or> suffix ''.bmp'' l)"

text \<open>Lines 284 to 288 and 275 to 288: the listing of the stage directories.\<close>

fun list_subdirectories :: "path \<Rightarrow> string list \<Rightarrow> unit io" where
  "list_subdirectories stage_path [] = ret ()"
| "list_subdirectories stage_path (item # contents) =
     bnd (os_path_isdir (stage_path @ [item])) (\<lambda>d.
     bnd (if d then bnd (os_listdir (stage_path @ [item])) (\<lambda>_. ret ()) else ret ()) (\<lambda>_.
     list_subdirectories stage_path contents))"

fun check_stages :: "path \<Rightarrow> string list \<Rightarrow> unit io" where
  "check_stages output_dir [] = ret ()"
| "check_stages output_dir (stage # stage_dirs) =
     bnd (os_path_exists (output_dir @ [stage])) (\<lambda>e.
     bnd (if e then
            bnd (os_listdir (output_dir @ [stage])) (\<lambda>contents.
            if contents \<noteq> [] then list_subdirectories (output_dir @ [stage]) contents
            else ret ())
          else ret ()) (\<lambda>_.
     check_stages output_dir stage_dirs))"

definition stage_dirs :: "string list" where
  "stage_dirs =
     [''stage_1_restore_output'', ''stage_2_detection_output'', ''stage_3_face_output'',
      ''final_output'']"

text \<open>Lines 291 to 298.\<close>

definition possible_output_dirs :: "path \<Rightarrow> path list" where
  "possible_output_dirs output_dir =
     [output_dir @ [''final_output''],
      output_dir,
      output_dir @ [''restored_image''],
      output_dir @ [''stage_1_restore_output'', ''restored_image''],
      output_dir @ [''stage_1_restore_output'', ''origin''],
      output_dir @ [''stage_3_face_output'', ''each_img'']]"

text \<open>
  Lines 318 to 324: the first entry with an image name is opened and ends the loop.
  The result is the pair \<^verbatim>\<open>(restored_image, restored_path)\<close>; \<open>None\<close> stands for both
  variables still being \<^verbatim>\<open>None\<close>.
\<close>

fun first_image_file :: "path \<Rightarrow> string list \<Rightarrow> (image \<times> path) option io" where
  "first_image_file output_subdir [] = ret None"
| "first_image_file output_subdir (file # contents) =
     (if is_image_name file then
        bnd (image_open (output_subdir @ [file])) (\<lambda>restored_image.
        ret (Some (restored_image, output_subdir @ [file])))
      else first_image_file output_subdir contents)"

text \<open>Lines 302 to 326.\<close>

fun find_restored :: "path list \<Rightarrow> (image \<times> path) option io" where
  "find_restored [] = ret None"
| "find_restored (output_subdir # dirs) =
     bnd (os_path_exists output_subdir) (\<lambda>e.
     if e then
       bnd (os_listdir output_subdir) (\<lambda>contents.
       bnd (os_path_exists (output_subdir @ [''uploaded_image.jpg''])) (\<lambda>e'.
       if e' then
         bnd (image_open (output_subdir @ [''uploaded_image.jpg''])) (\<lambda>restored_image.
         ret (Some (restored_image, output_subdir @ [''uploaded_image.jpg''])))
       else
         bnd (first_image_file output_subdir contents) (\<lambda>r.
         case r of
           Some found \<Rightarrow> ret (Some found)
         | None \<Rightarrow> find_restored dirs)))
     else find_restored dirs)"

text \<open>
  The whole driver; \<open>image_in\<close> is the argument \<^verbatim>\<open>image\<close>, \<open>timestamp\<close> is the text \<^verbatim>\<open>datetime.now().strftime(...)\<close> gives.
  The result is \<^verbatim>\<open>(original_image, restored_image, download_path)\<close>.
\<close>

definition process_single_image ::
  "engine \<Rightarrow> path \<Rightarrow> string \<Rightarrow> image option \<Rightarrow> bool \<Rightarrow> bool \<Rightarrow> bool
   \<Rightarrow> (image option \<times> image option \<times> path option) io" where
  "process_single_image eng temp_dir timestamp image_in use_gpu with_scratch high_resolution =
     (case image_in of
        None \<Rightarrow> ret (None, None, None)
      | Some img \<Rightarrow>
          with_temporary_directory temp_dir
           (let input_dir = temp_dir @ [''input''];
                output_dir = temp_dir @ [''output'']
            in
            bnd (os_makedirs True input_dir) (\<lambda>_.
            bnd (os_makedirs True output_dir) (\<lambda>_.
            bnd (image_save img (input_dir @ [''uploaded_image.jpg''])) (\<lambda>_.
            bnd (os_listdir input_dir) (\<lambda>_.
            bnd (restore_photos eng input_dir output_dir (if use_gpu then 0 else - 1)
                   with_scratch high_resolution) (\<lambda>success.
            bnd (os_path_exists output_dir) (\<lambda>e.
            bnd (if e then bnd (os_listdir output_dir) (\<lambda>_. ret ()) else ret ()) (\<lambda>_.
            if \<not> success then ret (None, None, None)
            else
              bnd (check_stages output_dir stage_dirs) (\<lambda>_.
              bnd (find_restored (possible_output_dirs output_dir)) (\<lambda>found.
              case found of
                Some (restored_image, restored_path) \<Rightarrow>
                  bnd (os_makedirs True [''downloads'']) (\<lambda>_.
                  bnd (image_save restored_image
                         [''downloads'', ''restored_photo_'' @ timestamp @ ''.jpg'']) (\<lambda>_.
                  ret (Some img, Some restored_image,
                       Some [''downloads'', ''restored_photo_'' @ timestamp @ ''.jpg''])))
              | None \<Rightarrow> ret (None, None, None))))))))))))"

subsection \<open>\<^verbatim>\<open>process_multiple_images\<close>\<close>

text \<open>\<^verbatim>\<open>Path(file_path).suffix\<close>: the last component from its last dot on, when that dot
  is neither its first nor its last character.\<close>

definition name_suffix :: "string \<Rightarrow> string" where
  "name_suffix name =
     (if CHR ''.'' \<notin> set name then []
      else
        let i = length name - length (takeWhile (\<lambda>c. c \<noteq> CHR ''.'') (rev name)) - 1
        in if 0 < i \<and> i < length name - 1 then drop i name else [])"

definition path_suffix :: "path \<Rightarrow> string" where
  "path_suffix p = (if p = [] then [] else name_suffix (last p))"

definition staged_name :: "nat \<Rightarrow> path \<Rightarrow> string" where
  "staged_name i file_path = ''image_'' @ str_nat i @ path_suffix file_path"

text \<open>Lines 383 to 388; \<open>i\<close> is the index \<^verbatim>\<open>enumerate\<close> has reached.\<close>

fun copy_uploads :: "path \<Rightarrow> nat \<Rightarrow> path option list \<Rightarrow> unit io" where
  "copy_uploads input_dir i [] = ret ()"
| "copy_uploads input_dir i (None # files) = copy_uploads input_dir (Suc i) files"
| "copy_uploads input_dir i (Some file_path # files) =
     bnd (shutil_copy2 file_path (input_dir @ [staged_name i file_path])) (\<lambda>_.
     copy_uploads input_dir (Suc i) files)"

type_synonym batch_item = "image option \<times> image option \<times> image option"

text \<open>Lines 410 to 424; the items are returned in the order they are appended.\<close>

fun load_results :: "path \<Rightarrow> nat \<Rightarrow> path option list \<Rightarrow> batch_item list io" where
  "load_results final_output_dir i [] = ret []"
| "load_results final_output_dir i (None # files) =
     bnd (load_results final_output_dir (Suc i) files) (\<lambda>results.
     ret ((None, None, None) # results))"
| "load_results final_output_dir i (Some file_path # files) =
     bnd (image_open file_path) (\<lambda>original_image.
     bnd (os_path_exists (final_output_dir @ [staged_name i file_path])) (\<lambda>e.
     bnd (if e then
            bnd (image_open (final_output_dir @ [staged_name i file_path])) (\<lambda>restored_image.
            (\<lambda>w. (case make_grid original_image restored_image True of
                     Inl err \<Rightarrow> Inl err
                   | Inr comparison \<Rightarrow>
                       Inr (Some original_image, Some restored_image, Some comparison), w)))
          else ret (Some original_image, None, None)) (\<lambda>item.
     bnd (load_results final_output_dir (Suc i) files) (\<lambda>results.
     ret (item # results)))))"

text \<open>The argument \<open>files\<close> is \<open>None\<close> for Python's \<^verbatim>\<open>None\<close>; an entry of the list may be \<^verbatim>\<open>None\<close> too.\<close>

definition process_multiple_images ::
  "engine \<Rightarrow> path \<Rightarrow> path option list option \<Rightarrow> bool \<Rightarrow> bool \<Rightarrow> bool \<Rightarrow> batch_item list io" where
  "process_multiple_images eng temp_dir files use_gpu with_scratch high_resolution =
     (case files of
        None \<Rightarrow> ret []
      | Some file_list \<Rightarrow>
          if file_list = [] then ret []
          else
            with_temporary_directory temp_dir
             (let input_dir = temp_dir @ [''input''];
                  output_dir = temp_dir @ [''output'']
              in
              bnd (os_makedirs True input_dir) (\<lambda>_.
              bnd (os_makedirs True output_dir) (\<lambda>_.
              bnd (copy_uploads input_dir 0 file_list) (\<lambda>_.
              bnd (restore_photos eng input_dir output_dir (if use_gpu then 0 else - 1)
                     with_scratch high_resolution) (\<lambda>success.
              if \<not> success then ret (replicate (length file_list) (None, None, None))
              else
                bnd (os_path_exists (output_dir @ [''final_output''])) (\<lambda>e.
                if e then load_results (output_dir @ [''final_output'']) 0 file_list
                else ret [])))))))"

subsection \<open>Well-formed file systems\<close>

text \<open>In a file system every entry lies in a directory.\<close>

definition fs_wf :: "filesystem \<Rightarrow> bool" where
  "fs_wf fs = list_all (\<lambda>e. fst e \<noteq> [] \<and> parent_is_dir fs (fst e)) fs"

subsection \<open>Concrete engines and worlds\<close>

definition succeeding_engine :: engine where
  "succeeding_engine =
     (\<lambda>command cwd fs. \<lparr>returncode = 0, output_is_text = True, disk_left = fs\<rparr>)"

definition failing_engine :: engine where
  "failing_engine =
     (\<lambda>command cwd fs. \<lparr>returncode = 1, output_is_text = True, disk_left = fs\<rparr>)"



definition photo :: image where
  "photo = \<lparr>width = 400, height = 5, mode = Mode_RGB\<rparr>"

text \<open>The engine is installed, the temporary area exists, one photo has been uploaded.\<close>

definition installed_world :: world where
  "installed_world =
     \<lparr>disk = [([''photo_restoration''], Dir),
              ([''photo_restoration'', ''run.py''], File None),
              ([''tmp''], Dir),
              ([''uploads''], Dir),
              ([''uploads'', ''a.jpg''], File (Some photo))],
      trace = []\<rparr>"

text \<open>No engine; an output directory left by an earlier run.\<close>

definition bare_world :: world where
  "bare_world =
     \<lparr>disk = [([''out''], Dir), ([''out'', ''old.png''], File (Some photo)), ([''in''], Dir)],
      trace = []\<rparr>"

subsection \<open>The file system \<^verbatim>\<open>os.makedirs\<close> is called on by \<open>prepare_output\<close>\<close>

text \<open>The output directory is removed when it is a directory, and only then.\<close>

definition cleared :: "filesystem \<Rightarrow> path \<Rightarrow> filesystem" where
  "cleared fs out = (if fs_isdir fs out then fs_remove_tree fs out else fs)"

text \<open>The output directory holds what an earlier run left.\<close>

definition stale_world :: world where
  "stale_world =
     \<lparr>disk = [([''out''], Dir), ([''out'', ''final_output''], Dir),
              ([''out'', ''final_output'', ''old.png''], File None), ([''in''], Dir)],
      trace = []\<rparr>"

subsection \<open>The words of a command line\<close>












subsection \<open>Candidate directories and example output trees\<close>

text \<open>A candidate directory that is absent, or is a directory holding neither
  \<^verbatim>\<open>uploaded_image.jpg\<close> nor an entry with an image name.\<close>

definition yields_no_match :: "filesystem \<Rightarrow> path \<Rightarrow> bool" where
  "yields_no_match fs d \<longleftrightarrow>
     \<not> fs_exists fs d
     \<or> (fs_isdir fs d \<and> \<not> fs_exists fs (d @ [''uploaded_image.jpg''])
        \<and> find is_image_name (fs_listdir fs d) = None)"

text \<open>Output trees: one with a renamed result in a stage directory, one with the result
  in the root only, one with a result in the root and another in the last candidate.\<close>

definition resolver_world :: world where
  "resolver_world =
     \<lparr>disk = [([''out''], Dir),
              ([''out'', ''final_output''], Dir),
              ([''out'', ''final_output'', ''notes.txt''], File None),
              ([''out'', ''stage_1_restore_output''], Dir),
              ([''out'', ''stage_1_restore_output'', ''restored_image''], Dir),
              ([''out'', ''stage_1_restore_output'', ''restored_image'', ''log.txt''], File None),
              ([''out'', ''stage_1_restore_output'', ''restored_image'', ''renamed.PNG''],
               File (Some photo)),
              ([''out'', ''stage_1_restore_output'', ''origin''], Dir),
              ([''out'', ''stage_1_restore_output'', ''origin'', ''uploaded_image.jpg''],
               File (Some photo))],
      trace = []\<rparr>"

definition root_only_world :: world where
  "root_only_world =
     \<lparr>disk = [([''out''], Dir),
              ([''out'', ''uploaded_image.jpg''], File (Some photo)),
              ([''out'', ''stage_3_face_output''], Dir)],
      trace = []\<rparr>"

definition enhanced :: image where
  "enhanced = \<lparr>width = 800, height = 10, mode = Mode_RGB\<rparr>"

definition both_world :: world where
  "both_world =
     \<lparr>disk = [([''out''], Dir),
              ([''out'', ''uploaded_image.jpg''], File (Some photo)),
              ([''out'', ''stage_3_face_output''], Dir),
              ([''out'', ''stage_3_face_output'', ''each_img''], Dir),
              ([''out'', ''stage_3_face_output'', ''each_img'', ''uploaded_image.jpg''],
               File (Some enhanced))],
      trace = []\<rparr>"

subsection \<open>Calls that look into the output directory\<close>


definition quiet :: "(event \<Rightarrow> bool) \<Rightarrow> 'a io \<Rightarrow> bool" where
  "quiet P m \<longleftrightarrow> (\<forall>w. filter P (trace (snd (m w))) = filter P (trace w))"

subsection \<open>The new height of the comparison image\<close>

text \<open>The largest relative error of one rounding.\<close>

definition float_eps :: rat where
  "float_eps = 1 / 2 ^ 53"

text \<open>Lines 47 and 48: \<^verbatim>\<open>int(H * (W_base / (W*2)))\<close>.\<close>

definition new_height :: "int \<Rightarrow> int \<Rightarrow> int" where
  "new_height W H =
     py_int_of_float (py_int_times_float H (float_round (of_int W_base / of_int (W * 2))))"

text \<open>An image narrower than half the base width.\<close>

definition small :: image where
  "small = \<lparr>width = 100, height = 100, mode = Mode_RGB\<rparr>"

subsection \<open>The staged batch\<close>

text \<open>
  The file system while the uploads are copied: well-formed, with the input and the
  output directory, only files in the input directory, and every upload a file that is
  not in the temporary directory.
\<close>

definition staged :: "path \<Rightarrow> path option list \<Rightarrow> filesystem \<Rightarrow> bool" where
  "staged tmp fl fs \<longleftrightarrow>
     fs_wf fs \<and> fs_isdir fs (tmp @ [''input'']) \<and> fs_isdir fs (tmp @ [''output''])
     \<and> (\<forall>q. strict_prefix (tmp @ [''input'']) q \<longrightarrow> \<not> fs_isdir fs q)
     \<and> (\<forall>p. Some p \<in> set fl \<longrightarrow> (\<exists>c. map_of fs p = Some (File c)))
     \<and> (\<forall>p. Some p \<in> set fl \<longrightarrow> \<not> prefix tmp p)"

text \<open>The world in which the body of a \<^verbatim>\<open>with tempfile.TemporaryDirectory()\<close> block starts.\<close>

definition inside_temporary_directory :: "path \<Rightarrow> world \<Rightarrow> world" where
  "inside_temporary_directory temp_dir w =
     (record_event (MkDTemp temp_dir) w)\<lparr>disk := disk w @ [(temp_dir, Dir)]\<rparr>"

text \<open>Lines 375 to 388 of the batch driver: the two directories and the copies.\<close>

definition stage_uploads :: "path \<Rightarrow> path option list \<Rightarrow> unit io" where
  "stage_uploads temp_dir file_list =
     bnd (os_makedirs True (temp_dir @ [''input''])) (\<lambda>_.
     bnd (os_makedirs True (temp_dir @ [''output''])) (\<lambda>_.
     copy_uploads (temp_dir @ [''input'']) 0 file_list))"

definition is_file :: "filesystem \<Rightarrow> path \<Rightarrow> bool" where
  "is_file fs p = (case lookup fs p of Some (File c) \<Rightarrow> True | _ \<Rightarrow> False)"

section \<open>Properties\<close>

subsection \<open>Absent input\<close>

text \<open>
  Claim C10. \<^verbatim>\<open>process_single_image\<close> with \<^verbatim>\<open>image = None\<close> returns
  \<^verbatim>\<open>(None, None, None)\<close>, and \<^verbatim>\<open>process_multiple_images\<close> with \<^verbatim>\<open>None\<close> or the
  empty list returns the empty list. In each case the world is returned as it was given:
  the file system is the same and the trace has no new call, so no engine was started
  and no directory was created, removed or changed.
\<close>

theorem absent_input_is_no_op:
  "process_single_image eng temp_dir timestamp None use_gpu with_scratch high_resolution w
     = (Inr (None, None, None), w)
   \<and> process_multiple_images eng temp_dir None use_gpu with_scratch high_resolution w
     = (Inr [], w)
   \<and> process_multiple_images eng temp_dir (Some []) use_gpu with_scratch high_resolution w
     = (Inr [], w)"
  by (simp add: process_single_image_def process_multiple_images_def ret_def)

subsection \<open>The setup check comes before the output directory is touched\<close>

text \<open>
  Claim C9. When the directory \<^verbatim>\<open>photo_restoration\<close> or its \<^verbatim>\<open>run.py\<close> is absent,
  \<^verbatim>\<open>restore_photos\<close> returns \<^verbatim>\<open>False\<close>, the file system is unchanged (the output
  directory is neither removed nor created), and the only calls made are the existence
  checks.
\<close>

theorem restore_photos_setup_missing:
  assumes "\<not> fs_exists (disk w) photo_restoration_dir
           \<or> \<not> fs_exists (disk w) (photo_restoration_dir @ [''run.py''])"
  shows "fst (restore_photos eng input_folder output_folder gpu_id with_scratch hr w) = Inr False
       \<and> disk (snd (restore_photos eng input_folder output_folder gpu_id with_scratch hr w)) = disk w
       \<and> trace (snd (restore_photos eng input_folder output_folder gpu_id with_scratch hr w))
           = trace w @ (if fs_exists (disk w) photo_restoration_dir
                        then [Exists photo_restoration_dir,
                              Exists (photo_restoration_dir @ [''run.py''])]
                        else [Exists photo_restoration_dir])"
  using assms
  by (auto simp: restore_photos_def bnd_def ret_def os_path_exists_def record_event_def)

theorem restore_photos_setup_missing_witness:
  "\<not> fs_exists (disk bare_world) photo_restoration_dir
   \<and> fst (restore_photos succeeding_engine [''in''] [''out''] (- 1) False False bare_world)
       = Inr False
   \<and> disk (snd (restore_photos succeeding_engine [''in''] [''out''] (- 1) False False bare_world))
       = disk bare_world
   \<and> fs_listdir
        (disk (snd (restore_photos succeeding_engine [''in''] [''out''] (- 1) False False
                      bare_world))) [''out'']
       = [''old.png'']"
proof -
  have h: "\<not> fs_exists (disk bare_world) photo_restoration_dir"
    by code_simp
  have l: "fs_listdir (disk bare_world) [''out''] = [''old.png'']"
    by code_simp
  from restore_photos_setup_missing
         [of bare_world succeeding_engine "[''in'']" "[''out'']" "- 1" False False] h l
  show ?thesis by simp
qed

subsection \<open>Preparing the output directory\<close>

lemma map_of_filter_key:
  "map_of (filter (\<lambda>e. P (fst e)) fs) q = (if P q then map_of fs q else None)"
  by (induction fs) auto

lemma wf_entry:
  assumes "fs_wf fs" "map_of fs q = Some n"
  shows "q \<noteq> [] \<and> parent_is_dir fs q"
proof -
  from assms(2) have "(q, n) \<in> set fs" by (rule map_of_SomeD)
  with assms(1) show ?thesis by (auto simp: fs_wf_def list_all_iff)
qed

lemma wf_ancestors_are_dirs:
  assumes "fs_wf fs"
  shows "fs_exists fs q \<Longrightarrow> strict_prefix p q \<Longrightarrow> p \<noteq> [] \<Longrightarrow> fs_isdir fs p"
proof (induction q rule: rev_induct)
  case Nil
  then show ?case by simp
next
  case (snoc x q)
  from snoc.prems(1) obtain n where n: "map_of fs (q @ [x]) = Some n"
    by (auto simp: fs_exists_def lookup_def)
  from wf_entry [OF assms n] have par: "q = [] \<or> fs_isdir fs q"
    by (simp add: parent_is_dir_def)
  from snoc.prems(2) have "p = q \<or> strict_prefix p q"
    by (auto simp: strict_prefix_def)
  then show ?case
  proof
    assume "p = q"
    with par snoc.prems(3) show ?thesis by simp
  next
    assume sp: "strict_prefix p q"
    then have "q \<noteq> []" by auto
    with par have "fs_exists fs q" by (simp add: fs_isdir_def fs_exists_def)
    from snoc.IH [OF this sp snoc.prems(3)] show ?thesis .
  qed
qed

text \<open>The file system \<open>prepare_output\<close> hands to \<open>os.makedirs\<close>.\<close>

lemma prepare_output_unfold:
  "prepare_output out w =
     os_makedirs False out
       (if fs_isdir (disk w) out
        then record_event (RmTree out) ((record_event (IsDir out) w)\<lparr>disk := fs_remove_tree (disk w) out\<rparr>)
        else record_event (IsDir out) w)"
  by (simp add: prepare_output_def bnd_def os_path_isdir_def shutil_rmtree_def ret_def record_event_def)

lemma makedirs_new_success:
  "fst (os_makedirs False name w) = Inr () \<longleftrightarrow>
     name \<noteq> [] \<and> \<not> blocked_by_file (disk w) name \<and> \<not> fs_exists (disk w) name"
  by (simp add: os_makedirs_def Let_def)

lemma makedirs_new_disk:
  "fst (os_makedirs False name w) = Inr () \<Longrightarrow>
     disk (snd (os_makedirs False name w))
       = disk w @ map (\<lambda>q. (q, Dir)) (missing_dirs (disk w) name)"
  by (simp add: os_makedirs_def Let_def record_event_def split: if_splits)

lemma map_of_new_dirs:
  "map_of (map (\<lambda>q. (q, Dir)) qs) p = (if p \<in> set qs then Some Dir else None)"
  by (induction qs) auto

lemma lookup_after_makedirs:
  "map_of (fs @ map (\<lambda>q. (q, Dir)) (missing_dirs fs name)) p =
     (case map_of fs p of
        Some n \<Rightarrow> Some n
      | None \<Rightarrow> if p \<noteq> [] \<and> prefix p name then Some Dir else None)"
proof -
  have "set (tl (prefixes name)) = {p. p \<noteq> [] \<and> prefix p name}"
    by (cases name) (auto simp: prefix_Cons)
  then have "p \<in> set (missing_dirs fs name) \<longleftrightarrow> map_of fs p = None \<and> p \<noteq> [] \<and> prefix p name"
    by (auto simp: missing_dirs_def fs_exists_def lookup_def)
  then show ?thesis
    by (auto simp: map_add_def map_of_new_dirs split: option.splits)
qed

lemma created_dir_is_empty:
  assumes new: "name \<noteq> []" "\<not> fs_exists fs name"
    and below: "\<And>q. strict_prefix name q \<Longrightarrow> \<not> fs_exists fs q"
  defines "fs' \<equiv> fs @ map (\<lambda>q. (q, Dir)) (missing_dirs fs name)"
  shows "fs_isdir fs' name"
    and "\<And>q. strict_prefix name q \<Longrightarrow> \<not> fs_exists fs' q"
    and "fs_listdir fs' name = []"
proof -
  show d: "fs_isdir fs' name"
    using new
    by (simp add: fs'_def fs_isdir_def lookup_def lookup_after_makedirs fs_exists_def
             del: map_of_append)
  show b: "\<not> fs_exists fs' q" if "strict_prefix name q" for q
  proof -
    from that below have "map_of fs q = None" by (simp add: fs_exists_def lookup_def)
    moreover from that have "\<not> prefix q name" by (auto simp: strict_prefix_def)
    ultimately show ?thesis
      by (simp add: fs'_def fs_exists_def lookup_def lookup_after_makedirs del: map_of_append)
  qed
  have "\<not> (fst e \<noteq> [] \<and> butlast (fst e) = name)" if e: "e \<in> set fs'" for e
  proof
    assume a: "fst e \<noteq> [] \<and> butlast (fst e) = name"
    then have "fst e = name @ [last (fst e)]" by (metis append_butlast_last_id)
    then have "strict_prefix name (fst e)" by (metis strict_prefixI' )
    from b [OF this] have "map_of fs' (fst e) = None" by (simp add: fs_exists_def lookup_def)
    then have "fst e \<notin> fst ` set fs'" by (simp add: map_of_eq_None_iff)
    with e show False by auto
  qed
  then show "fs_listdir fs' name = []"
    by (simp add: fs_listdir_def filter_empty_conv)
qed


lemma lookup_remove_tree:
  "map_of (fs_remove_tree fs p) q = (if prefix p q then None else map_of fs q)"
  using map_of_filter_key [of "\<lambda>q. \<not> prefix p q" fs q]
  by (simp add: fs_remove_tree_def)

lemma set_butlast_prefixes: "set (butlast (prefixes xs)) = {q. strict_prefix q xs}"
  by (cases xs rule: rev_cases) (auto simp: strict_prefix_def)

lemma blocked_by_file_iff:
  "blocked_by_file fs name \<longleftrightarrow> (\<exists>q. strict_prefix q name \<and> fs_exists fs q \<and> \<not> fs_isdir fs q)"
  by (auto simp: blocked_by_file_def list_ex_iff set_butlast_prefixes)

lemma prepare_output_success:
  "fst (prepare_output out w) = Inr () \<longleftrightarrow>
     out \<noteq> [] \<and> \<not> blocked_by_file (cleared (disk w) out) out
     \<and> \<not> fs_exists (cleared (disk w) out) out"
  by (simp add: prepare_output_unfold makedirs_new_success cleared_def record_event_def)

lemma prepare_output_disk:
  assumes "fst (prepare_output out w) = Inr ()"
  shows "disk (snd (prepare_output out w))
           = cleared (disk w) out @ map (\<lambda>q. (q, Dir)) (missing_dirs (cleared (disk w) out) out)"
proof -
  let ?w = "if fs_isdir (disk w) out
        then record_event (RmTree out) ((record_event (IsDir out) w)\<lparr>disk := fs_remove_tree (disk w) out\<rparr>)
        else record_event (IsDir out) w"
  have d: "disk ?w = cleared (disk w) out" by (simp add: cleared_def record_event_def)
  from assms have "fst (os_makedirs False out ?w) = Inr ()"
    by (simp only: prepare_output_unfold)
  from makedirs_new_disk [OF this] show ?thesis
    by (simp only: prepare_output_unfold d)
qed

lemma nothing_below_cleared:
  assumes "fs_wf fs \<or> fs_isdir fs out" "out \<noteq> []" "\<not> fs_exists (cleared fs out) out"
    "strict_prefix out q"
  shows "\<not> fs_exists (cleared fs out) q"
proof (cases "fs_isdir fs out")
  case True
  with assms(4) show ?thesis
    by (simp add: cleared_def fs_exists_def lookup_def lookup_remove_tree)
next
  case False
  with assms(1) have wf: "fs_wf fs" by simp
  from False have c: "cleared fs out = fs" by (simp add: cleared_def)
  show ?thesis
  proof
    assume "fs_exists (cleared fs out) q"
    with c have "fs_exists fs q" by simp
    from wf_ancestors_are_dirs [OF wf this assms(4) assms(2)] False show False by simp
  qed
qed

lemma prepared_is_empty:
  assumes ok: "fst (prepare_output out w) = Inr ()"
    and wf: "fs_wf (disk w) \<or> fs_isdir (disk w) out"
  shows "fs_isdir (disk (snd (prepare_output out w))) out
       \<and> fs_listdir (disk (snd (prepare_output out w))) out = []
       \<and> (\<forall>q. strict_prefix out q \<longrightarrow> \<not> fs_exists (disk (snd (prepare_output out w))) q)"
proof -
  from ok have new: "out \<noteq> []" "\<not> fs_exists (cleared (disk w) out) out"
    by (simp_all add: prepare_output_success)
  have below: "\<not> fs_exists (cleared (disk w) out) q" if "strict_prefix out q" for q
    using nothing_below_cleared [OF wf new that] .
  from created_dir_is_empty [OF new below] show ?thesis
    by (simp add: prepare_output_disk [OF ok])
qed

lemma prepare_output_again:
  assumes ok: "fst (prepare_output out w) = Inr ()"
  shows "fst (prepare_output out (snd (prepare_output out w))) = Inr ()"
proof -
  let ?fs1 = "cleared (disk w) out"
  let ?fs2 = "disk (snd (prepare_output out w))"
  from ok have new: "out \<noteq> []" "\<not> fs_exists ?fs1 out" and nb: "\<not> blocked_by_file ?fs1 out"
    by (simp_all add: prepare_output_success)
  have fs2: "?fs2 = ?fs1 @ map (\<lambda>q. (q, Dir)) (missing_dirs ?fs1 out)"
    by (rule prepare_output_disk [OF ok])
  have dir: "fs_isdir ?fs2 out"
    using new
    by (simp add: fs2 fs_isdir_def lookup_def lookup_after_makedirs fs_exists_def
             del: map_of_append)
  then have c: "cleared ?fs2 out = fs_remove_tree ?fs2 out" by (simp add: cleared_def)
  have gone: "\<not> fs_exists (fs_remove_tree ?fs2 out) out"
    by (simp add: fs_exists_def lookup_def lookup_remove_tree)
  have "\<not> blocked_by_file (fs_remove_tree ?fs2 out) out"
  proof
    assume "blocked_by_file (fs_remove_tree ?fs2 out) out"
    then obtain q where q: "strict_prefix q out" "fs_exists (fs_remove_tree ?fs2 out) q"
      "\<not> fs_isdir (fs_remove_tree ?fs2 out) q"
      by (auto simp: blocked_by_file_iff)
    from q(1) have np: "\<not> prefix out q" by (auto simp: strict_prefix_def)
    from q(2,3) np obtain n where n: "map_of ?fs2 q = Some n" "n \<noteq> Dir"
      by (auto simp: fs_exists_def fs_isdir_def lookup_def lookup_remove_tree)
    then have "map_of ?fs1 q = Some n"
      by (simp add: fs2 lookup_after_makedirs del: map_of_append split: option.splits if_splits)
    with n(2) q(1) have "blocked_by_file ?fs1 out"
      by (auto simp: blocked_by_file_iff fs_exists_def fs_isdir_def lookup_def)
    with nb show False by simp
  qed
  with new(1) gone show ?thesis
    by (simp add: prepare_output_success c)
qed

text \<open>
  Claim C7. Preparing the output directory (remove it when it is a directory, then create
  it) leaves it existing and empty, with nothing of the earlier file system below it,
  whatever was there before; and preparing it a second time succeeds and leaves it
  existing and empty again. The file system given to the first run is any well-formed
  one, so it may hold the artifacts of an earlier run.
\<close>

theorem prepare_output_idempotent:
  assumes "fs_wf (disk w)" and "fst (prepare_output out w) = Inr ()"
  shows "fs_isdir (disk (snd (prepare_output out w))) out
       \<and> fs_listdir (disk (snd (prepare_output out w))) out = []
       \<and> (\<forall>q. strict_prefix out q \<longrightarrow> \<not> fs_exists (disk (snd (prepare_output out w))) q)
       \<and> fst (prepare_output out (snd (prepare_output out w))) = Inr ()
       \<and> fs_isdir (disk (snd (prepare_output out (snd (prepare_output out w))))) out
       \<and> fs_listdir (disk (snd (prepare_output out (snd (prepare_output out w))))) out = []
       \<and> (\<forall>q. strict_prefix out q \<longrightarrow>
             \<not> fs_exists (disk (snd (prepare_output out (snd (prepare_output out w))))) q)"
proof -
  have first: "fs_isdir (disk (snd (prepare_output out w))) out
       \<and> fs_listdir (disk (snd (prepare_output out w))) out = []
       \<and> (\<forall>q. strict_prefix out q \<longrightarrow> \<not> fs_exists (disk (snd (prepare_output out w))) q)"
    using assms by (intro prepared_is_empty) simp_all
  have again: "fst (prepare_output out (snd (prepare_output out w))) = Inr ()"
    using assms(2) by (rule prepare_output_again)
  from first have "fs_wf (disk (snd (prepare_output out w)))
      \<or> fs_isdir (disk (snd (prepare_output out w))) out" by simp
  from prepared_is_empty [OF again this] first again show ?thesis by simp
qed

theorem prepare_output_idempotent_witness:
  "fs_wf (disk stale_world) \<and> fst (prepare_output [''out''] stale_world) = Inr ()
   \<and> fs_exists (disk stale_world) [''out'', ''final_output'', ''old.png'']
   \<and> \<not> fs_exists (disk (snd (prepare_output [''out''] stale_world)))
          [''out'', ''final_output'', ''old.png'']
   \<and> fs_listdir (disk (snd (prepare_output [''out''] stale_world))) [''out''] = []
   \<and> fst (prepare_output [''out''] (snd (prepare_output [''out''] stale_world))) = Inr ()
   \<and> fs_listdir (disk (snd (prepare_output [''out''] (snd (prepare_output [''out''] stale_world)))))
        [''out''] = []"
proof -
  have wf: "fs_wf (disk stale_world)" by code_simp
  have ok: "fst (prepare_output [''out''] stale_world) = Inr ()" by code_simp
  have ex: "fs_exists (disk stale_world) [''out'', ''final_output'', ''old.png'']" by code_simp
  have sp: "strict_prefix [''out''] [''out'', ''final_output'', ''old.png'']" by code_simp
  from prepare_output_idempotent [OF wf ok] wf ok ex sp show ?thesis by blast
qed

subsection \<open>The command line and the engine run\<close>




























lemma disk_record_event: "disk (record_event e w) = disk w"
  by (simp add: record_event_def)

lemma trace_record_event: "trace (record_event e w) = trace w @ [e]"
  by (simp add: record_event_def)

lemma restore_photos_runs_engine:
  assumes "fs_exists (disk w) photo_restoration_dir"
    and "fs_exists (disk w) (photo_restoration_dir @ [''run.py''])"
    and "prepare_output out
           (record_event (Exists (photo_restoration_dir @ [''run.py'']))
              (record_event (Exists photo_restoration_dir) w)) = (Inr (), w1)"
    and "fs_isdir (disk w1) photo_restoration_dir"
    and "eng (restore_cmd i out g ws hr) photo_restoration_dir (disk w1) = r"
  shows "restore_photos eng i out g ws hr w =
     (if output_is_text r then Inr (returncode r = 0) else Inl UnicodeDecodeError,
      (record_event (RunCommand (restore_cmd i out g ws hr) photo_restoration_dir) w1)
        \<lparr>disk := disk_left r\<rparr>)"
  using assms
  by (simp add: restore_photos_def bnd_def os_path_exists_def run_command_def Let_def
                disk_record_event)




subsection \<open>Resolving the restored image\<close>

lemma first_image_file_none:
  "find is_image_name contents = None \<Longrightarrow> first_image_file d contents w = (Inr None, w)"
  by (induction contents) (auto simp: ret_def split: if_splits)

lemma first_image_file_found:
  "find is_image_name contents = Some f \<Longrightarrow>
     first_image_file d contents w = bnd (image_open (d @ [f])) (\<lambda>im. ret (Some (im, d @ [f]))) w"
  by (induction contents) (auto split: if_splits)

lemma image_open_image:
  "lookup (disk w) p = Some (File (Some im)) \<Longrightarrow>
     image_open p w = (Inr im, record_event (OpenImage p) w)"
  by (simp add: image_open_def)

lemma find_restored_absent:
  "\<not> fs_exists (disk w) d \<Longrightarrow>
     find_restored (d # ds) w = find_restored ds (record_event (Exists d) w)"
  by (simp add: bnd_def os_path_exists_def)

lemma find_restored_exact:
  assumes "fs_isdir (disk w) d" "lookup (disk w) (d @ [''uploaded_image.jpg'']) = Some (File (Some im))"
  shows "find_restored (d # ds) w =
     (Inr (Some (im, d @ [''uploaded_image.jpg''])),
      w\<lparr>trace := trace w @ [Exists d, ListDir d, Exists (d @ [''uploaded_image.jpg'']),
                             OpenImage (d @ [''uploaded_image.jpg''])]\<rparr>)"
  using assms
  by (simp add: bnd_def os_path_exists_def os_listdir_def image_open_def ret_def
        fs_exists_def fs_isdir_def record_event_def)

lemma find_restored_fallback:
  assumes "fs_isdir (disk w) d" "\<not> fs_exists (disk w) (d @ [''uploaded_image.jpg''])"
    "find is_image_name (fs_listdir (disk w) d) = Some f"
    "lookup (disk w) (d @ [f]) = Some (File (Some im))"
  shows "find_restored (d # ds) w =
     (Inr (Some (im, d @ [f])),
      w\<lparr>trace := trace w @ [Exists d, ListDir d, Exists (d @ [''uploaded_image.jpg'']),
                             OpenImage (d @ [f])]\<rparr>)"
  using assms
  by (simp add: bnd_def os_path_exists_def os_listdir_def first_image_file_found
        image_open_def ret_def fs_exists_def fs_isdir_def record_event_def)

lemma find_restored_no_match:
  assumes "fs_isdir (disk w) d" "\<not> fs_exists (disk w) (d @ [''uploaded_image.jpg''])"
    "find is_image_name (fs_listdir (disk w) d) = None"
  shows "find_restored (d # ds) w =
     find_restored ds
       (w\<lparr>trace := trace w @ [Exists d, ListDir d, Exists (d @ [''uploaded_image.jpg''])]\<rparr>)"
  using assms
  by (simp add: bnd_def os_path_exists_def os_listdir_def first_image_file_none
        fs_exists_def fs_isdir_def record_event_def)

lemma find_restored_skip:
  assumes "yields_no_match (disk w) d"
  shows "\<exists>w'. disk w' = disk w \<and> find_restored (d # ds) w = find_restored ds w'"
proof (cases "fs_exists (disk w) d")
  case False
  then show ?thesis
    using find_restored_absent [of w d ds]
    by (intro exI [of _ "record_event (Exists d) w"]) (simp add: record_event_def)
next
  case True
  with assms have *: "fs_isdir (disk w) d" "\<not> fs_exists (disk w) (d @ [''uploaded_image.jpg''])"
    "find is_image_name (fs_listdir (disk w) d) = None"
    by (auto simp: yields_no_match_def)
  show ?thesis
    using find_restored_no_match [OF *, of ds]
    by (intro exI [of _ "w\<lparr>trace := trace w @ [Exists d, ListDir d, Exists (d @ [''uploaded_image.jpg''])]\<rparr>"]) simp
qed

lemma find_restored_none:
  "\<forall>d \<in> set ds. yields_no_match (disk w) d \<Longrightarrow> fst (find_restored ds w) = Inr None"
proof (induction ds arbitrary: w)
  case Nil
  then show ?case by (simp add: ret_def)
next
  case (Cons d ds)
  then have "yields_no_match (disk w) d" by simp
  from find_restored_skip [OF this, of ds] obtain w' where
    w': "disk w' = disk w" "find_restored (d # ds) w = find_restored ds w'" by blast
  from Cons.prems w'(1) have "\<forall>d \<in> set ds. yields_no_match (disk w') d" by simp
  from Cons.IH [OF this] w'(2) show ?case by simp
qed

text \<open>
  Claim C6. The candidate directories are taken in order. A directory that does not exist
  is skipped. In a directory that holds the file \<^verbatim>\<open>uploaded_image.jpg\<close> (the name every
  upload is staged under), that file is the match and no further call is made. Otherwise
  the first entry of the listing whose lower-cased name ends in \<^verbatim>\<open>.jpg\<close>, \<^verbatim>\<open>.jpeg\<close>,
  \<^verbatim>\<open>.png\<close> or \<^verbatim>\<open>.bmp\<close> is the match and no further call is made. A directory with
  neither passes the search on, and when no candidate gives a match the result is
  \<open>None\<close>. A match is a file that opens as an image.
\<close>

theorem find_restored_steps:
  "find_restored [] w = (Inr None, w)
   \<and> (\<not> fs_exists (disk w) d \<longrightarrow>
        find_restored (d # ds) w = find_restored ds (record_event (Exists d) w))
   \<and> (fs_isdir (disk w) d
      \<and> lookup (disk w) (d @ [''uploaded_image.jpg'']) = Some (File (Some im)) \<longrightarrow>
        find_restored (d # ds) w =
          (Inr (Some (im, d @ [''uploaded_image.jpg''])),
           w\<lparr>trace := trace w @ [Exists d, ListDir d, Exists (d @ [''uploaded_image.jpg'']),
                                  OpenImage (d @ [''uploaded_image.jpg''])]\<rparr>))
   \<and> (fs_isdir (disk w) d \<and> \<not> fs_exists (disk w) (d @ [''uploaded_image.jpg''])
      \<and> find is_image_name (fs_listdir (disk w) d) = Some f
      \<and> lookup (disk w) (d @ [f]) = Some (File (Some im)) \<longrightarrow>
        find_restored (d # ds) w =
          (Inr (Some (im, d @ [f])),
           w\<lparr>trace := trace w @ [Exists d, ListDir d, Exists (d @ [''uploaded_image.jpg'']),
                                  OpenImage (d @ [f])]\<rparr>))
   \<and> (fs_isdir (disk w) d \<and> \<not> fs_exists (disk w) (d @ [''uploaded_image.jpg''])
      \<and> find is_image_name (fs_listdir (disk w) d) = None \<longrightarrow>
        find_restored (d # ds) w =
          find_restored ds
            (w\<lparr>trace := trace w @ [Exists d, ListDir d,
                                   Exists (d @ [''uploaded_image.jpg''])]\<rparr>))
   \<and> ((\<forall>c \<in> set dirs. yields_no_match (disk w) c) \<longrightarrow> fst (find_restored dirs w) = Inr None)"
  using find_restored_absent [of w d ds] find_restored_exact [of w d im ds]
    find_restored_fallback [of w d f im ds] find_restored_no_match [of w d ds]
    find_restored_none [of dirs w]
  by (simp add: ret_def)

theorem find_restored_steps_witness:
  "(\<not> fs_exists (disk resolver_world) [''out'', ''restored_image'']
     \<and> find_restored [[''out'', ''restored_image'']] resolver_world
         = (Inr None, record_event (Exists [''out'', ''restored_image'']) resolver_world))
   \<and> (lookup (disk resolver_world) [''out'', ''stage_1_restore_output'', ''origin'', ''uploaded_image.jpg'']
         = Some (File (Some photo))
     \<and> fst (find_restored [[''out'', ''stage_1_restore_output'', ''origin''], [''out'']] resolver_world)
         = Inr (Some (photo, [''out'', ''stage_1_restore_output'', ''origin'', ''uploaded_image.jpg''])))
   \<and> (find is_image_name
         (fs_listdir (disk resolver_world) [''out'', ''stage_1_restore_output'', ''restored_image''])
         = Some ''renamed.PNG''
     \<and> fst (find_restored [[''out'', ''stage_1_restore_output'', ''restored_image''], [''out'']]
              resolver_world)
         = Inr (Some (photo, [''out'', ''stage_1_restore_output'', ''restored_image'', ''renamed.PNG''])))
   \<and> (find is_image_name (fs_listdir (disk resolver_world) [''out'', ''final_output'']) = None
     \<and> find_restored [[''out'', ''final_output'']] resolver_world
         = (Inr None,
            resolver_world\<lparr>trace := [Exists [''out'', ''final_output''],
                                      ListDir [''out'', ''final_output''],
                                      Exists [''out'', ''final_output'', ''uploaded_image.jpg'']]\<rparr>))
   \<and> fst (find_restored [[''out'', ''final_output''], [''out''], [''out'', ''restored_image'']]
            resolver_world) = Inr None"
proof -
  note steps = find_restored_steps
  have a: "\<not> fs_exists (disk resolver_world) [''out'', ''restored_image'']"
    by code_simp
  have a': "find_restored [[''out'', ''restored_image'']] resolver_world
         = (Inr None, record_event (Exists [''out'', ''restored_image'']) resolver_world)"
    using steps [of "record_event (Exists [''out'', ''restored_image'']) resolver_world"]
      steps [of resolver_world "[''out'', ''restored_image'']" "[]"] a
    by simp
  have b: "fs_isdir (disk resolver_world) [''out'', ''stage_1_restore_output'', ''origin'']"
    "lookup (disk resolver_world) [''out'', ''stage_1_restore_output'', ''origin'', ''uploaded_image.jpg'']
         = Some (File (Some photo))"
    by code_simp+
  have b': "fst (find_restored [[''out'', ''stage_1_restore_output'', ''origin''], [''out'']] resolver_world)
         = Inr (Some (photo, [''out'', ''stage_1_restore_output'', ''origin'', ''uploaded_image.jpg'']))"
    using steps [of resolver_world "[''out'', ''stage_1_restore_output'', ''origin'']" "[[''out'']]" photo] b
    by simp
  have c: "fs_isdir (disk resolver_world) [''out'', ''stage_1_restore_output'', ''restored_image'']"
    "\<not> fs_exists (disk resolver_world)
        ([''out'', ''stage_1_restore_output'', ''restored_image''] @ [''uploaded_image.jpg''])"
    "find is_image_name
         (fs_listdir (disk resolver_world) [''out'', ''stage_1_restore_output'', ''restored_image''])
         = Some ''renamed.PNG''"
    "lookup (disk resolver_world)
        ([''out'', ''stage_1_restore_output'', ''restored_image''] @ [''renamed.PNG''])
         = Some (File (Some photo))"
    by code_simp+
  have c': "fst (find_restored [[''out'', ''stage_1_restore_output'', ''restored_image''], [''out'']]
              resolver_world)
         = Inr (Some (photo, [''out'', ''stage_1_restore_output'', ''restored_image'', ''renamed.PNG'']))"
    using steps [of resolver_world "[''out'', ''stage_1_restore_output'', ''restored_image'']"
                   "[[''out'']]" photo "''renamed.PNG''"] c
    by simp
  have d: "fs_isdir (disk resolver_world) [''out'', ''final_output'']"
    "\<not> fs_exists (disk resolver_world) ([''out'', ''final_output''] @ [''uploaded_image.jpg''])"
    "find is_image_name (fs_listdir (disk resolver_world) [''out'', ''final_output'']) = None"
    by code_simp+
  have d': "find_restored [[''out'', ''final_output'']] resolver_world
         = (Inr None,
            resolver_world\<lparr>trace := [Exists [''out'', ''final_output''],
                                      ListDir [''out'', ''final_output''],
                                      Exists [''out'', ''final_output'', ''uploaded_image.jpg'']]\<rparr>)"
    using steps [of resolver_world "[''out'', ''final_output'']" "[]"]
      steps [of "resolver_world\<lparr>trace := [Exists [''out'', ''final_output''],
                                      ListDir [''out'', ''final_output''],
                                      Exists [''out'', ''final_output'', ''uploaded_image.jpg'']]\<rparr>"] d
    by (simp add: resolver_world_def)
  have e: "\<forall>c \<in> set [[''out'', ''final_output''], [''out''], [''out'', ''restored_image'']].
             yields_no_match (disk resolver_world) c"
    by code_simp
  have e': "fst (find_restored [[''out'', ''final_output''], [''out''], [''out'', ''restored_image'']]
            resolver_world) = Inr None"
    using steps [of resolver_world _ _ _ _
                   "[[''out'', ''final_output''], [''out''], [''out'', ''restored_image'']]"] e
    by blast
  from a a' b b' c c' d d' e' show ?thesis by blast
qed

text \<open>
  Claim C5, as the code has it. The candidates are six directories, in this order:
  \<^verbatim>\<open>final_output\<close>, the output root, \<^verbatim>\<open>restored_image\<close>,
  \<^verbatim>\<open>stage_1_restore_output/restored_image\<close>, \<^verbatim>\<open>stage_1_restore_output/origin\<close> and
  \<^verbatim>\<open>stage_3_face_output/each_img\<close>. The root is the second of them. When
  \<^verbatim>\<open>final_output\<close> gives no match and the root holds \<^verbatim>\<open>uploaded_image.jpg\<close>, the
  search returns the path in the root.
\<close>

theorem root_is_second_candidate:
  "possible_output_dirs output_dir =
     [output_dir @ [''final_output''],
      output_dir,
      output_dir @ [''restored_image''],
      output_dir @ [''stage_1_restore_output'', ''restored_image''],
      output_dir @ [''stage_1_restore_output'', ''origin''],
      output_dir @ [''stage_3_face_output'', ''each_img'']]
   \<and> possible_output_dirs output_dir ! 1 = output_dir
   \<and> (yields_no_match (disk w) (output_dir @ [''final_output''])
      \<and> fs_isdir (disk w) output_dir
      \<and> lookup (disk w) (output_dir @ [''uploaded_image.jpg'']) = Some (File (Some im)) \<longrightarrow>
        fst (find_restored (possible_output_dirs output_dir) w)
          = Inr (Some (im, output_dir @ [''uploaded_image.jpg''])))"
proof (intro conjI impI)
  assume a: "yields_no_match (disk w) (output_dir @ [''final_output''])
      \<and> fs_isdir (disk w) output_dir
      \<and> lookup (disk w) (output_dir @ [''uploaded_image.jpg'']) = Some (File (Some im))"
  let ?rest = "[output_dir @ [''restored_image''],
      output_dir @ [''stage_1_restore_output'', ''restored_image''],
      output_dir @ [''stage_1_restore_output'', ''origin''],
      output_dir @ [''stage_3_face_output'', ''each_img'']]"
  from a have "yields_no_match (disk w) (output_dir @ [''final_output''])" by simp
  from find_restored_skip [OF this, of "output_dir # ?rest"] obtain w' where
    w': "disk w' = disk w"
    "find_restored (possible_output_dirs output_dir) w = find_restored (output_dir # ?rest) w'"
    by (auto simp: possible_output_dirs_def)
  from a w'(1) have "fs_isdir (disk w') output_dir"
    "lookup (disk w') (output_dir @ [''uploaded_image.jpg'']) = Some (File (Some im))"
    by simp_all
  from find_restored_exact [OF this, of ?rest] w'(2)
  show "fst (find_restored (possible_output_dirs output_dir) w)
          = Inr (Some (im, output_dir @ [''uploaded_image.jpg'']))"
    by simp
qed (simp_all add: possible_output_dirs_def)

theorem root_is_second_candidate_witness:
  "yields_no_match (disk root_only_world) ([''out''] @ [''final_output''])
   \<and> fs_isdir (disk root_only_world) [''out'']
   \<and> lookup (disk root_only_world) ([''out''] @ [''uploaded_image.jpg'']) = Some (File (Some photo))
   \<and> fst (find_restored (possible_output_dirs [''out'']) root_only_world)
       = Inr (Some (photo, [''out'', ''uploaded_image.jpg'']))"
proof -
  have h: "yields_no_match (disk root_only_world) ([''out''] @ [''final_output''])
   \<and> fs_isdir (disk root_only_world) [''out'']
   \<and> lookup (disk root_only_world) ([''out''] @ [''uploaded_image.jpg'']) = Some (File (Some photo))"
    by code_simp
  note t = root_is_second_candidate [of "[''out'']" root_only_world photo]
  from t [THEN conjunct2, THEN conjunct2] h
  show ?thesis by simp
qed

text \<open>
  The root is not the last candidate: the last one is \<^verbatim>\<open>stage_3_face_output/each_img\<close>,
  and when both it and the root hold a result, the one in the root is returned.
\<close>

theorem root_is_last_candidate_counterexample:
  "last (possible_output_dirs [''out'']) = [''out'', ''stage_3_face_output'', ''each_img'']
   \<and> last (possible_output_dirs [''out'']) \<noteq> [''out'']
   \<and> lookup (disk both_world) [''out'', ''stage_3_face_output'', ''each_img'', ''uploaded_image.jpg'']
       = Some (File (Some enhanced))
   \<and> fst (find_restored (possible_output_dirs [''out'']) both_world)
       = Inr (Some (photo, [''out'', ''uploaded_image.jpg'']))"
  by code_simp

subsection \<open>A failed engine run ends the batch\<close>

lemma quietD: "quiet P m \<Longrightarrow> filter P (trace (snd (m w))) = filter P (trace w)"
  by (simp add: quiet_def)















lemma quiet_with_temporary_directory:
  assumes "\<not> P (MkDTemp t)" "\<not> P (Cleanup t)" "quiet P body"
  shows "quiet P (with_temporary_directory t body)"
  unfolding quiet_def
proof
  fix w
  let ?w1 = "(record_event (MkDTemp t) w)\<lparr>disk := disk w @ [(t, Dir)]\<rparr>"
  obtain r w2 where b: "body ?w1 = (r, w2)" by (cases "body ?w1")
  from quietD [OF assms(3), of ?w1] b assms(1)
  have "filter P (trace w2) = filter P (trace w)" by (simp add: record_event_def)
  with assms(1,2) b
  show "filter P (trace (snd (with_temporary_directory t body w))) = filter P (trace w)"
    by (simp add: with_temporary_directory_def Let_def record_event_def)
qed




lemma fst_with_temporary_directory_Inr:
  "fst (with_temporary_directory t body w) = Inr y \<Longrightarrow> \<exists>w'. fst (body w') = Inr y"
  by (auto simp: with_temporary_directory_def Let_def split: prod.splits if_splits)
     (metis fst_conv)



lemma wf_no_empty_key: "fs_wf fs \<Longrightarrow> map_of fs [] = None"
  by (auto simp: fs_wf_def list_all_iff map_of_eq_None_iff)

lemma wf_exists_not_empty: "fs_wf fs \<Longrightarrow> fs_exists fs p \<Longrightarrow> p \<noteq> []"
  using wf_no_empty_key [of fs] by (auto simp: fs_exists_def lookup_def)

lemma wf_nothing_below_absent:
  assumes "fs_wf fs" "\<not> fs_exists fs p" "p \<noteq> []" "strict_prefix p q"
  shows "\<not> fs_exists fs q"
proof
  assume "fs_exists fs q"
  from wf_ancestors_are_dirs [OF assms(1) this assms(4,3)] assms(2) show False
    by (simp add: fs_isdir_def fs_exists_def)
qed

lemma wf_prefix_of_dir:
  assumes wf: "fs_wf fs" and d: "fs_isdir fs d" and p: "prefix q d" "q \<noteq> []"
  shows "fs_isdir fs q"
proof (cases "q = d")
  case True
  with d show ?thesis by simp
next
  case False
  with p have "strict_prefix q d" by (simp add: strict_prefix_def)
  moreover from d have "fs_exists fs d" by (simp add: fs_isdir_def fs_exists_def)
  ultimately show ?thesis using wf p(2) by (intro wf_ancestors_are_dirs)
qed

lemma strict_prefix_butlast: "strict_prefix q name \<Longrightarrow> prefix q (butlast name)"
  by (cases name rule: rev_cases) (auto simp: strict_prefix_def)

lemma wf_not_blocked:
  assumes wf: "fs_wf fs" and par: "parent_is_dir fs name"
  shows "\<not> blocked_by_file fs name"
proof
  assume "blocked_by_file fs name"
  then obtain q where q: "strict_prefix q name" "fs_exists fs q" "\<not> fs_isdir fs q"
    by (auto simp: blocked_by_file_iff)
  from q(2) have qn: "q \<noteq> []" by (rule wf_exists_not_empty [OF wf])
  from q(1) have pq: "prefix q (butlast name)" by (rule strict_prefix_butlast)
  with qn have "butlast name \<noteq> []" by auto
  with par have "fs_isdir fs (butlast name)" by (simp add: parent_is_dir_def)
  from wf_prefix_of_dir [OF wf this pq qn] q(3) show False by simp
qed

lemma wf_missing_dirs:
  assumes wf: "fs_wf fs" and par: "parent_is_dir fs name" and new: "name \<noteq> []" "\<not> fs_exists fs name"
  shows "missing_dirs fs name = [name]"
proof -
  from new(1) obtain xs x where name: "name = xs @ [x]" by (cases name rule: rev_cases) auto
  have "fs_exists fs q" if "q \<in> set (tl (prefixes xs))" for q
  proof -
    from that have q: "q \<noteq> []" "prefix q xs"
      by (cases xs, auto simp: prefix_Cons)+
    then have "xs \<noteq> []" by auto
    with par name have "fs_isdir fs xs" by (simp add: parent_is_dir_def)
    from wf_prefix_of_dir [OF wf this q(2,1)] show ?thesis
      by (simp add: fs_isdir_def fs_exists_def)
  qed
  then have "filter (\<lambda>q. \<not> fs_exists fs q) (tl (prefixes xs)) = []"
    by (simp add: filter_empty_conv)
  with new(2) show ?thesis
    by (simp add: missing_dirs_def name)
qed

lemma makedirs_fresh:
  assumes "fs_wf (disk w)" "parent_is_dir (disk w) name" "name \<noteq> []" "\<not> fs_exists (disk w) name"
  shows "os_makedirs ok name w
       = (Inr (), (record_event (MakeDirs name) w)\<lparr>disk := disk w @ [(name, Dir)]\<rparr>)"
  using assms wf_not_blocked [OF assms(1,2)] wf_missing_dirs [OF assms]
  by (simp add: os_makedirs_def Let_def)

lemma lookup_append_new:
  "\<not> fs_exists fs p \<Longrightarrow> map_of (fs @ [(p, n)]) q = (if q = p then Some n else map_of fs q)"
  by (auto simp: fs_exists_def lookup_def map_add_def split: option.splits)

lemma wf_append_new:
  assumes wf: "fs_wf fs" and "p \<noteq> []" "parent_is_dir fs p" and new: "\<not> fs_exists fs p"
  shows "fs_wf (fs @ [(p, n)])"
proof -
  have keep: "parent_is_dir (fs @ [(p, n)]) q" if "parent_is_dir fs q" for q
    using that new
    by (auto simp: parent_is_dir_def fs_isdir_def fs_exists_def lookup_def lookup_append_new
             simp del: map_of_append)
  from wf have "\<forall>e \<in> set fs. fst e \<noteq> [] \<and> parent_is_dir fs (fst e)"
    by (simp add: fs_wf_def list_all_iff)
  with keep assms(2,3) show ?thesis
    by (auto simp: fs_wf_def list_all_iff)
qed


lemma lookup_fs_write: "map_of (fs_write fs p n) q = (if q = p then Some n else map_of fs q)"
  using map_of_filter_key [of "\<lambda>k. k \<noteq> p" fs q]
  by (auto simp: fs_write_def map_add_def split: option.splits)

lemma wf_fs_write:
  assumes wf: "fs_wf fs" and p: "p \<noteq> []" "parent_is_dir fs p" "\<not> fs_isdir fs p"
  shows "fs_wf (fs_write fs p (File c))"
proof -
  have keep: "parent_is_dir (fs_write fs p (File c)) q" if "parent_is_dir fs q" for q
    using that p(3)
    by (auto simp: parent_is_dir_def fs_isdir_def lookup_def lookup_fs_write)
  from wf have "\<forall>e \<in> set fs. fst e \<noteq> [] \<and> parent_is_dir fs (fst e)"
    by (simp add: fs_wf_def list_all_iff)
  with keep p(1,2) show ?thesis
    by (auto simp: fs_wf_def list_all_iff fs_write_def)
qed

lemma wf_remove_tree:
  assumes wf: "fs_wf fs"
  shows "fs_wf (fs_remove_tree fs p)"
proof -
  have "fst e \<noteq> [] \<and> parent_is_dir (fs_remove_tree fs p) (fst e)"
    if e: "e \<in> set fs" "\<not> prefix p (fst e)" for e
  proof -
    from wf e(1) have a: "fst e \<noteq> []" "parent_is_dir fs (fst e)"
      by (auto simp: fs_wf_def list_all_iff)
    have "prefix (butlast (fst e)) (fst e)" by (simp add: prefixeq_butlast)
    with e(2) have "\<not> prefix p (butlast (fst e))" by (auto intro: prefix_order.trans)
    with a show ?thesis
      by (simp add: parent_is_dir_def fs_isdir_def lookup_def lookup_remove_tree)
  qed
  then show ?thesis
    by (auto simp: fs_wf_def list_all_iff fs_remove_tree_def)
qed

lemma isdir_parent_is_dir: "fs_wf fs \<Longrightarrow> fs_exists fs p \<Longrightarrow> parent_is_dir fs p"
  using wf_entry [of fs p] by (auto simp: fs_exists_def lookup_def)

text \<open>\<open>restore_photos\<close> raises no exception when the output directory exists.\<close>

lemma prepare_existing_dir:
  assumes wf: "fs_wf (disk w)" and d: "fs_isdir (disk w) out"
  shows "fst (prepare_output out w) = Inr ()"
proof -
  from d have ex: "fs_exists (disk w) out" by (simp add: fs_isdir_def fs_exists_def)
  then have n: "out \<noteq> []" by (rule wf_exists_not_empty [OF wf])
  from d have c: "cleared (disk w) out = fs_remove_tree (disk w) out" by (simp add: cleared_def)
  have "prefix (butlast out) out" by (simp add: prefixeq_butlast)
  moreover from n have "butlast out \<noteq> out" by (cases out rule: rev_cases) auto
  ultimately have np: "\<not> prefix out (butlast out)" by (auto dest: prefix_order.antisym)
  from isdir_parent_is_dir [OF wf ex] np
  have "parent_is_dir (fs_remove_tree (disk w) out) out"
    by (simp add: parent_is_dir_def fs_isdir_def lookup_def lookup_remove_tree)
  from wf_not_blocked [OF wf_remove_tree [OF wf] this] n show ?thesis
    by (simp add: prepare_output_success c fs_exists_def lookup_def lookup_remove_tree)
qed

lemma prepared_is_dir:
  assumes ok: "fst (prepare_output out w) = Inr ()"
  shows "fs_isdir (disk (snd (prepare_output out w))) out"
proof -
  from ok have "out \<noteq> []" "\<not> fs_exists (cleared (disk w) out) out"
    by (simp_all add: prepare_output_success)
  then show ?thesis
    by (simp add: prepare_output_disk [OF ok] fs_isdir_def lookup_def lookup_after_makedirs
          fs_exists_def del: map_of_append)
qed

lemma prepare_keeps_dirs:
  assumes ok: "fst (prepare_output out w) = Inr ()" and d: "fs_isdir (disk w) p" "p \<noteq> []"
    and single: "length p = 1"
  shows "fs_isdir (disk (snd (prepare_output out w))) p"
proof (cases "prefix out p")
  case True
  from ok have "out \<noteq> []" by (simp add: prepare_output_success)
  with True single have "out = p"
    by (cases p; cases out) (auto simp: prefix_Cons)
  with prepared_is_dir [OF ok] show ?thesis by simp
next
  case False
  with d have "map_of (cleared (disk w) out) p = Some Dir"
    by (simp add: cleared_def fs_isdir_def lookup_def lookup_remove_tree)
  then show ?thesis
    by (simp add: prepare_output_disk [OF ok] fs_isdir_def lookup_def lookup_after_makedirs
             del: map_of_append)
qed

lemma restore_photos_returns:
  assumes wf: "fs_wf (disk w)" and d: "fs_isdir (disk w) out"
  shows "(\<exists>b. fst (restore_photos eng i out g ws hr w) = Inr b)
       \<or> fst (restore_photos eng i out g ws hr w) = Inl UnicodeDecodeError"
proof (cases "fs_exists (disk w) photo_restoration_dir
              \<and> fs_exists (disk w) (photo_restoration_dir @ [''run.py''])")
  case False
  then show ?thesis
    by (auto simp: restore_photos_def bnd_def ret_def os_path_exists_def disk_record_event)
next
  case True
  let ?w2 = "record_event (Exists (photo_restoration_dir @ [''run.py'']))
               (record_event (Exists photo_restoration_dir) w)"
  have d2: "disk ?w2 = disk w" by (simp add: disk_record_event)
  from wf d have ok: "fst (prepare_output out ?w2) = Inr ()"
    by (intro prepare_existing_dir) (simp_all add: d2)
  have sp: "strict_prefix photo_restoration_dir (photo_restoration_dir @ [''run.py''])"
    by (rule strict_prefixI' [of _ _ "''run.py''" "[]"]) simp
  from True have "fs_exists (disk w) (photo_restoration_dir @ [''run.py''])" by simp
  from wf_ancestors_are_dirs [OF wf this sp]
  have "fs_isdir (disk w) photo_restoration_dir"
    by (simp add: photo_restoration_dir_def)
  then have "fs_isdir (disk (snd (prepare_output out ?w2))) photo_restoration_dir"
    by (intro prepare_keeps_dirs [OF ok])
       (simp_all add: disk_record_event photo_restoration_dir_def)
  moreover obtain w3 where w3: "prepare_output out ?w2 = (Inr (), w3)"
    using ok by (cases "prepare_output out ?w2") auto
  ultimately show ?thesis
    using True restore_photos_runs_engine [of w out w3 eng i g ws hr, OF _ _ _ _ refl]
    by (cases "output_is_text (eng (restore_cmd i out g ws hr) photo_restoration_dir (disk w3))")
       simp_all
qed

lemma copy_keeps_staged:
  assumes st: "staged tmp fl (disk w)" and src: "Some src \<in> set fl"
  shows "\<exists>w'. shutil_copy2 src (tmp @ [''input''] @ [name]) w = (Inr (), w')
              \<and> staged tmp fl (disk w')"
proof -
  let ?dst = "tmp @ [''input''] @ [name]"
  from st src obtain c where c: "map_of (disk w) src = Some (File c)"
    by (auto simp: staged_def)
  have sp: "strict_prefix (tmp @ [''input'']) ?dst"
    by (rule strict_prefixI' [of _ _ name "[]"]) simp
  with st have nd: "\<not> fs_isdir (disk w) ?dst" by (simp add: staged_def)
  from st have par: "parent_is_dir (disk w) ?dst"
    by (simp add: staged_def parent_is_dir_def butlast_append)
  from st src have "\<not> prefix tmp src" by (simp add: staged_def)
  then have ne: "?dst \<noteq> src" by auto
  from st have "fs_wf (disk w)" by (simp add: staged_def)
  from wf_no_empty_key [OF this] c have ns: "src \<noteq> []" by auto
  have copy: "shutil_copy2 src ?dst w
     = (Inr (), (record_event (Copy src ?dst) w)\<lparr>disk := fs_write (disk w) ?dst (File c)\<rparr>)"
    using c nd par ne ns
    by (simp add: shutil_copy2_def Let_def write_file_def lookup_def disk_record_event)
  have "staged tmp fl (fs_write (disk w) ?dst (File c))"
    unfolding staged_def
  proof (intro conjI allI impI)
    from st have wf: "fs_wf (disk w)" by (simp add: staged_def)
    show "fs_wf (fs_write (disk w) ?dst (File c))"
      using wf par nd by (intro wf_fs_write) simp_all
    show "fs_isdir (fs_write (disk w) ?dst (File c)) (tmp @ [''input''])"
      using st by (simp add: staged_def fs_isdir_def lookup_def lookup_fs_write)
    show "fs_isdir (fs_write (disk w) ?dst (File c)) (tmp @ [''output''])"
      using st by (simp add: staged_def fs_isdir_def lookup_def lookup_fs_write)
  next
    fix q
    assume "strict_prefix (tmp @ [''input'']) q"
    with st show "\<not> fs_isdir (fs_write (disk w) ?dst (File c)) q"
      by (simp add: staged_def fs_isdir_def lookup_def lookup_fs_write)
  next
    fix p
    assume "Some p \<in> set fl"
    with st show "\<exists>c'. map_of (fs_write (disk w) ?dst (File c)) p = Some (File c')"
      by (simp add: staged_def lookup_fs_write)
  next
    fix p
    assume "Some p \<in> set fl"
    with st show "\<not> prefix tmp p" by (simp add: staged_def)
  qed
  with copy show ?thesis by simp
qed

lemma copy_uploads_staged:
  "staged tmp fl (disk w) \<Longrightarrow> set file_list \<subseteq> set fl \<Longrightarrow>
     \<exists>w'. copy_uploads (tmp @ [''input'']) i file_list w = (Inr (), w') \<and> staged tmp fl (disk w')"
proof (induction file_list arbitrary: i w)
  case Nil
  then show ?case by (simp add: ret_def)
next
  case (Cons f file_list)
  show ?case
  proof (cases f)
    case None
    with Cons show ?thesis by simp
  next
    case (Some src)
    with Cons.prems have "Some src \<in> set fl" by simp
    from copy_keeps_staged [OF Cons.prems(1) this, of "staged_name i src"]
    obtain w1 where w1: "shutil_copy2 src (tmp @ [''input''] @ [staged_name i src]) w = (Inr (), w1)"
      "staged tmp fl (disk w1)" by blast
    from Cons.prems have "set file_list \<subseteq> set fl" by simp
    from Cons.IH [OF w1(2) this, of "Suc i"] obtain w' where
      "copy_uploads (tmp @ [''input'']) (Suc i) file_list w1 = (Inr (), w')"
      "staged tmp fl (disk w')" by blast
    with w1(1) Some show ?thesis by (simp add: bnd_def)
  qed
qed

lemma staging_directories:
  assumes wf: "fs_wf (disk w)" and tmp: "temp_dir \<noteq> []" "\<not> fs_exists (disk w) temp_dir"
    "parent_is_dir (disk w) temp_dir"
    and fl: "\<forall>p. Some p \<in> set fl \<longrightarrow> (\<exists>c. lookup (disk w) p = Some (File c))"
  defines "w0 \<equiv> (record_event (MkDTemp temp_dir) w)\<lparr>disk := disk w @ [(temp_dir, Dir)]\<rparr>"
  shows "\<exists>w2. bnd (os_makedirs True (temp_dir @ [''input''])) (\<lambda>_.
               os_makedirs True (temp_dir @ [''output''])) w0 = (Inr (), w2)
              \<and> staged temp_dir fl (disk w2)"
proof -
  let ?in = "temp_dir @ [''input'']" and ?out = "temp_dir @ [''output'']"
  let ?fs0 = "disk w @ [(temp_dir, Dir)]"
  let ?fs1 = "?fs0 @ [(?in, Dir)]"
  let ?fs2 = "?fs1 @ [(?out, Dir)]"
  note defs = fs_exists_def fs_isdir_def lookup_def parent_is_dir_def butlast_append map_add_def
  have d0: "disk w0 = ?fs0" by (simp add: w0_def)
  have below: "map_of (disk w) (temp_dir @ x # xs) = None" for x xs
    using wf_nothing_below_absent [OF wf tmp(2,1), of "temp_dir @ x # xs"]
    by (simp add: fs_exists_def lookup_def strict_prefix_def)
  from tmp(2) have a0: "map_of (disk w) temp_dir = None" by (simp add: fs_exists_def lookup_def)
  have wf0: "fs_wf ?fs0" by (rule wf_append_new [OF wf tmp(1,3,2)])
  have n1: "\<not> fs_exists ?fs0 ?in"
    using below [of "''input''" "[]"] by (simp add: defs)
  have p1: "parent_is_dir ?fs0 ?in"
    using a0 by (simp add: defs)
  have m1: "os_makedirs True ?in w0
      = (Inr (), (record_event (MakeDirs ?in) w0)\<lparr>disk := ?fs1\<rparr>)"
    using makedirs_fresh [of w0 ?in True] wf0 p1 n1 by (simp add: d0)
  let ?w1 = "(record_event (MakeDirs ?in) w0)\<lparr>disk := ?fs1\<rparr>"
  have wf1: "fs_wf ?fs1" by (rule wf_append_new [OF wf0 _ p1 n1]) simp
  have n2: "\<not> fs_exists ?fs1 ?out"
    using below [of "''output''" "[]"] by (simp add: defs)
  have p2: "parent_is_dir ?fs1 ?out"
    using a0 by (simp add: defs)
  have m2: "os_makedirs True ?out ?w1
      = (Inr (), (record_event (MakeDirs ?out) ?w1)\<lparr>disk := ?fs2\<rparr>)"
    using makedirs_fresh [of ?w1 ?out True] wf1 p2 n2 by simp
  have wf2: "fs_wf ?fs2" by (rule wf_append_new [OF wf1 _ p2 n2]) simp
  have "staged temp_dir fl ?fs2"
    unfolding staged_def
  proof (intro conjI allI impI)
    show "fs_wf ?fs2" by (rule wf2)
    show "fs_isdir ?fs2 ?in"
      using a0 below [of "''input''" "[]"] by (simp add: defs)
    show "fs_isdir ?fs2 ?out"
      using a0 below [of "''output''" "[]"] by (simp add: defs)
  next
    fix q
    assume "strict_prefix ?in q"
    then obtain zs where zs: "q = ?in @ zs" "zs \<noteq> []"
      by (auto simp: strict_prefix_def prefix_def)
    then obtain x xs where q: "q = temp_dir @ ''input'' # x # xs"
      by (cases zs) auto
    with below [of "''input''" "x # xs"] show "\<not> fs_isdir ?fs2 q"
      by (simp add: defs)
  next
    fix p
    assume "Some p \<in> set fl"
    with fl obtain c where c: "map_of (disk w) p = Some (File c)"
      by (auto simp: lookup_def)
    then show "\<exists>c. map_of ?fs2 p = Some (File c)"
      by (simp add: defs)
  next
    fix p
    assume p: "Some p \<in> set fl"
    with fl obtain c where c: "map_of (disk w) p = Some (File c)"
      by (auto simp: lookup_def)
    show "\<not> prefix temp_dir p"
    proof
      assume "prefix temp_dir p"
      then have "p = temp_dir \<or> strict_prefix temp_dir p"
        by (auto simp: strict_prefix_def)
      then show False
      proof
        assume "p = temp_dir"
        with c a0 show False by simp
      next
        assume "strict_prefix temp_dir p"
        from wf_nothing_below_absent [OF wf tmp(2,1) this] c show False
          by (simp add: fs_exists_def lookup_def)
      qed
    qed
  qed
  with m1 m2 show ?thesis by (simp add: bnd_def)
qed


lemma bnd_assoc: "bnd (bnd m f) g = bnd m (\<lambda>x. bnd (f x) g)"
  by (auto simp: bnd_def fun_eq_iff split: prod.splits sum.splits)

lemma bnd_Inr: "m w = (Inr x, w') \<Longrightarrow> bnd m f w = f x w'"
  by (simp add: bnd_def)

lemma is_fileD: "is_file fs p \<Longrightarrow> \<exists>c. lookup fs p = Some (File c)"
  by (auto simp: is_file_def split: option.splits node.splits)

text \<open>On a well-formed file system the staging of the uploads raises no exception.\<close>

lemma stage_uploads_returns:
  assumes wf: "fs_wf (disk w)"
    and tmp: "temp_dir \<noteq> []" "\<not> fs_exists (disk w) temp_dir" "parent_is_dir (disk w) temp_dir"
    and fl: "\<forall>p. Some p \<in> set file_list \<longrightarrow> is_file (disk w) p"
  shows "\<exists>ws. stage_uploads temp_dir file_list (inside_temporary_directory temp_dir w) = (Inr (), ws)
              \<and> staged temp_dir file_list (disk ws)"
proof -
  let ?in = "temp_dir @ [''input'']" and ?out = "temp_dir @ [''output'']"
  let ?w0 = "(record_event (MkDTemp temp_dir) w)\<lparr>disk := disk w @ [(temp_dir, Dir)]\<rparr>"
  from fl have fl': "\<forall>p. Some p \<in> set file_list \<longrightarrow> (\<exists>c. lookup (disk w) p = Some (File c))"
    by (auto dest: is_fileD)
  from staging_directories [OF wf tmp fl'] obtain w2 where
    w2: "bnd (os_makedirs True ?in) (\<lambda>_. os_makedirs True ?out) ?w0 = (Inr (), w2)"
    "staged temp_dir file_list (disk w2)" by blast
  from copy_uploads_staged [OF w2(2) subset_refl, of 0] obtain w3 where
    w3: "copy_uploads ?in 0 file_list w2 = (Inr (), w3)" "staged temp_dir file_list (disk w3)"
    by blast
  let ?K = "\<lambda>_::unit. copy_uploads ?in 0 file_list"
  have "stage_uploads temp_dir file_list ?w0
      = bnd (bnd (os_makedirs True ?in) (\<lambda>_. os_makedirs True ?out)) ?K ?w0"
    by (simp only: stage_uploads_def bnd_assoc)
  also have "\<dots> = copy_uploads ?in 0 file_list w2"
    by (rule bnd_Inr [of "bnd (os_makedirs True ?in) (\<lambda>_. os_makedirs True ?out)" ?w0 "()" w2 ?K,
                      OF w2(1)])
  finally show ?thesis
    using w3 by (simp add: inside_temporary_directory_def)
qed





subsection \<open>The batch result when no merged output directory appears\<close>

text \<open>
  Whenever the batch driver returns a list, the list is empty or has one entry for each
  submitted file: the loop over the files appends one entry in each of its branches.
\<close>

lemma bndE:
  assumes "fst (bnd m f w) = Inr y"
  obtains x w' where "fst (m w) = Inr x" "snd (m w) = w'" "fst (f x w') = Inr y"
  using assms by (cases "m w") (auto simp: bnd_def split: sum.splits)

lemma load_results_length:
  "fst (load_results d i fl w) = Inr rs \<Longrightarrow> length rs = length fl"
proof (induction fl arbitrary: i w rs)
  case Nil
  then show ?case by (simp add: ret_def)
next
  case (Cons f fl)
  have "\<exists>item w' rs'. fst (load_results d (Suc i) fl w') = Inr rs' \<and> rs = item # rs'"
  proof (cases f)
    case None
    with Cons.prems
    have "fst (bnd (load_results d (Suc i) fl) (\<lambda>results. ret ((None, None, None) # results)) w)
            = Inr rs"
      by simp
    then show ?thesis
      by (elim bndE) (auto simp: ret_def)
  next
    case (Some file_path)
    with Cons.prems have "fst (load_results d i (Some file_path # fl) w) = Inr rs"
      by simp
    then show ?thesis
      unfolding load_results.simps
      by (elim bndE) (auto simp: ret_def)
  qed
  with Cons.IH show ?case by auto
qed


lemma batch_result_length:
  assumes "fst (process_multiple_images eng temp_dir (Some file_list) use_gpu with_scratch
                  high_resolution w) = Inr rs"
  shows "rs = [] \<or> length rs = length file_list"
proof (cases "file_list = []")
  case True
  with assms show ?thesis by (simp add: process_multiple_images_def ret_def)
next
  case False
  let ?final = "(temp_dir @ [''output'']) @ [''final_output'']"
  let ?tail = "\<lambda>success. if \<not> success
      then ret (replicate (length file_list) (None, None, None))
      else bnd (os_path_exists ?final) (\<lambda>e.
             if e then load_results ?final 0 file_list else ret [])"
  from assms False obtain w0 where
    "fst (bnd (os_makedirs True (temp_dir @ [''input''])) (\<lambda>_.
          bnd (os_makedirs True (temp_dir @ [''output''])) (\<lambda>_.
          bnd (copy_uploads (temp_dir @ [''input'']) 0 file_list) (\<lambda>_.
          bnd (restore_photos eng (temp_dir @ [''input'']) (temp_dir @ [''output''])
                 (if use_gpu then 0 else - 1) with_scratch high_resolution) ?tail))) w0) = Inr rs"
    by (auto simp: process_multiple_images_def Let_def dest!: fst_with_temporary_directory_Inr)
  then obtain success w1 where t: "fst (?tail success w1) = Inr rs"
    by (elim bndE) blast
  show ?thesis
  proof (cases success)
    case False
    with t show ?thesis by (auto simp: ret_def)
  next
    case True
    with t have "fst (bnd (os_path_exists ?final) (\<lambda>e.
             if e then load_results ?final 0 file_list else ret []) w1) = Inr rs"
      by simp
    then obtain e w2 where "fst ((if e then load_results ?final 0 file_list else ret []) w2) = Inr rs"
      by (elim bndE) blast
    then show ?thesis
      by (cases e) (auto simp: ret_def dest: load_results_length)
  qed
qed

text \<open>
  Claim C1. The batch result is meant to hold one entry for each submitted file, and the
  failure path of the driver returns one. With one uploaded file and an engine run that
  succeeds without producing the directory \<^verbatim>\<open>final_output\<close>, the driver returns the
  empty list; with the same file and a failing run it returns one entry.
\<close>

theorem process_multiple_images_drops_items:
  "fst (process_multiple_images succeeding_engine [''tmp'', ''job'']
          (Some [Some [''uploads'', ''a.jpg'']]) False False False installed_world) = Inr []
   \<and> fst (process_multiple_images failing_engine [''tmp'', ''job'']
          (Some [Some [''uploads'', ''a.jpg'']]) False False False installed_world)
       = Inr [(None, None, None)]"
  by code_simp

subsection \<open>Rounding errors of the float operations\<close>

lemma round_half_even_error: "\<bar>of_int (round_half_even x) - x\<bar> \<le> 1 / 2"
proof -
  have "of_int \<lfloor>x\<rfloor> \<le> x" "x < of_int \<lfloor>x\<rfloor> + 1" by linarith+
  then show ?thesis
    by (auto simp: round_half_even_def Let_def)
qed

lemma pow2_powi: "pow2 e = 2 powi e"
  by (simp add: pow2_def power_int_def inverse_eq_divide power_one_over)

lemma pow2_pos: "0 < pow2 e"
  by (simp add: pow2_def)

lemma pow2_add: "pow2 (a + b) = pow2 a * pow2 b"
  by (simp add: pow2_powi power_int_add)

lemma pow2_nat: "pow2 (int n) = 2 ^ n"
  by (simp add: pow2_def)

lemma pow2_diff: "pow2 (a - b) = pow2 a / pow2 b"
  by (simp add: pow2_powi power_int_diff)

lemma pow2_bitlen:
  assumes "0 < a"
  shows "pow2 (bitlen a - 1) \<le> of_int a" "(of_int a :: rat) < pow2 (bitlen a)"
proof -
  from bitlen_bounds [OF assms] have b: "2 ^ nat (bitlen a - 1) \<le> a" "a < 2 ^ nat (bitlen a)"
    by simp_all
  from assms have ge: "1 \<le> bitlen a" by (simp add: bitlen_alt_def)
  from b(1) have "(of_int (2 ^ nat (bitlen a - 1)) :: rat) \<le> of_int a"
    by (simp only: of_int_le_iff)
  with ge show "pow2 (bitlen a - 1) \<le> of_int a" by (simp add: pow2_def)
  from b(2) have "(of_int a :: rat) < of_int (2 ^ nat (bitlen a))"
    by (simp only: of_int_less_iff)
  with ge show "(of_int a :: rat) < pow2 (bitlen a)" by (simp add: pow2_def)
qed

lemma quotient_bounds:
  assumes "0 < a" "0 < b"
  shows "pow2 (bitlen a - bitlen b - 1) < of_int a / of_int b"
    "(of_int a / of_int b :: rat) < pow2 (bitlen a - bitlen b + 1)"
proof -
  note A = pow2_bitlen [OF assms(1)] and B = pow2_bitlen [OF assms(2)]
  from assms have pa: "(0::rat) < of_int a" and pb: "(0::rat) < of_int b" by simp_all
  have "pow2 (bitlen a - bitlen b - 1) = pow2 (bitlen a - 1) / pow2 (bitlen b)"
    by (simp add: pow2_diff [symmetric] algebra_simps)
  also have "\<dots> \<le> of_int a / pow2 (bitlen b)"
    using A(1) pow2_pos [of "bitlen b"] by (simp add: divide_right_mono)
  also have "\<dots> < of_int a / of_int b"
    using B(2) pa pb by (simp add: divide_strict_left_mono)
  finally show "pow2 (bitlen a - bitlen b - 1) < of_int a / of_int b" .
  have "(of_int a / of_int b :: rat) < pow2 (bitlen a) / of_int b"
    using A(2) pb by (simp add: divide_strict_right_mono)
  also have "\<dots> \<le> pow2 (bitlen a) / pow2 (bitlen b - 1)"
    using B(1) pb pow2_pos [of "bitlen a"] pow2_pos [of "bitlen b - 1"]
    by (simp add: divide_left_mono)
  also have "\<dots> = pow2 (bitlen a - bitlen b + 1)"
    by (simp add: pow2_diff [symmetric] algebra_simps)
  finally show "(of_int a / of_int b :: rat) < pow2 (bitlen a - bitlen b + 1)" .
qed

lemma float_exponent_bounds:
  assumes "0 < q"
  shows "pow2 (float_exponent q + 52) \<le> q" "q < pow2 (float_exponent q + 53)"
proof -
  obtain a b where ab: "quotient_of q = (a, b)" by (cases "quotient_of q")
  then have b: "0 < b" and q: "q = of_int a / of_int b"
    by (simp_all add: quotient_of_denom_pos quotient_of_div)
  from assms q b have a: "0 < a" by (simp add: zero_less_divide_iff)
  from quotient_bounds [OF a b] have B: "pow2 (bitlen a - bitlen b - 1) < q"
    "q < pow2 (bitlen a - bitlen b + 1)"
    by (simp_all add: q)
  let ?d = "bitlen a - bitlen b"
  have e: "float_exponent q = (if pow2 ?d \<le> q then ?d - 52 else ?d - 53)"
    by (simp add: float_exponent_def ab Let_def)
  show "pow2 (float_exponent q + 52) \<le> q"
  proof (cases "pow2 ?d \<le> q")
    case True
    then show ?thesis by (simp add: e)
  next
    case False
    have "?d - 53 + 52 = ?d - 1" by simp
    with False B(1) show ?thesis by (simp only: e if_False less_imp_le)
  qed
  show "q < pow2 (float_exponent q + 53)"
  proof (cases "pow2 ?d \<le> q")
    case True
    have "?d - 52 + 53 = ?d + 1" by simp
    with True B(2) show ?thesis by (simp only: e if_True)
  next
    case False
    then show ?thesis by (simp add: e)
  qed
qed

lemma float_eps_bounds: "0 < float_eps" "float_eps \<le> 1 / 4"
  by (simp_all add: float_eps_def)

lemma float_round_pos:
  "0 < q \<Longrightarrow> float_round q
     = of_int (round_half_even (q / pow2 (float_exponent q))) * pow2 (float_exponent q)"
  by (simp add: float_round_def)

lemma float_round_error:
  assumes "0 < q"
  shows "\<bar>float_round q - q\<bar> \<le> q * float_eps"
proof -
  let ?p = "pow2 (float_exponent q)"
  let ?m = "of_int (round_half_even (q / ?p)) :: rat"
  have p: "0 < ?p" by (rule pow2_pos)
  have "float_round q - q = (?m - q / ?p) * ?p"
    using p by (simp add: float_round_pos [OF assms] algebra_simps)
  then have "\<bar>float_round q - q\<bar> = \<bar>?m - q / ?p\<bar> * ?p"
    using p by (simp add: abs_mult)
  also have "\<dots> \<le> 1 / 2 * ?p"
    using round_half_even_error [of "q / ?p"] p by (intro mult_right_mono) simp_all
  also have "\<dots> \<le> q * float_eps"
  proof -
    have "pow2 52 = 2 ^ 52" by (simp add: pow2_def)
    then have "?p * 2 ^ 52 = pow2 (float_exponent q + 52)"
      by (simp only: pow2_add)
    with float_exponent_bounds(1) [OF assms] have "?p * 2 ^ 52 \<le> q" by simp
    then show ?thesis by (simp add: float_eps_def)
  qed
  finally show ?thesis .
qed

lemma float_round_between:
  assumes "0 < q"
  shows "q * (1 - float_eps) \<le> float_round q" "float_round q \<le> q * (1 + float_eps)"
  using float_round_error [OF assms] by (simp_all add: algebra_simps abs_le_iff)

lemma float_round_positive: "0 < q \<Longrightarrow> 0 < float_round q"
proof -
  assume q: "0 < q"
  have "(0::rat) < 1 - float_eps" using float_eps_bounds by simp
  with q have "0 < q * (1 - float_eps)" by (rule mult_pos_pos)
  with float_round_between(1) [OF q] show ?thesis by linarith
qed

lemma product_between:
  fixes a b lo hi :: rat
  assumes "0 < a" "0 < b" "0 \<le> lo" "lo \<le> hi"
    and "a * lo \<le> a'" "a' \<le> a * hi" "b * lo \<le> b'" "b' \<le> b * hi"
  shows "a * b * (lo * lo) \<le> a' * b'" "a' * b' \<le> a * b * (hi * hi)"
proof -
  from assms have a': "0 \<le> a * lo" and b': "0 \<le> b * lo" by simp_all
  from assms a' have pa: "0 \<le> a'" by linarith
  from assms b' have pb: "0 \<le> b'" by linarith
  have "(a * lo) * (b * lo) \<le> a' * b'"
    using assms(5,7) a' b' pa by (intro mult_mono) simp_all
  then show "a * b * (lo * lo) \<le> a' * b'" by (simp add: algebra_simps)
  have "0 \<le> a * hi" using pa assms(6) by linarith
  then have "a' * b' \<le> (a * hi) * (b * hi)"
    using assms(6,8) pa pb by (intro mult_mono) simp_all
  then show "a' * b' \<le> a * b * (hi * hi)" by (simp add: algebra_simps)
qed

lemma cube_bounds:
  fixes u :: rat
  assumes "0 \<le> u" "u \<le> 1 / 4"
  shows "1 - 4 * u \<le> (1 - u) * (1 - u) * (1 - u)" "(1 + u) * (1 + u) * (1 + u) \<le> 1 + 4 * u"
proof -
  have u2: "u * u \<le> u * (1 / 4)" by (rule mult_left_mono [OF assms(2) assms(1)])
  have "u * u * u \<le> u * (1 / 4) * u" using u2 assms(1) by (rule mult_right_mono)
  also have "\<dots> = (1 / 4) * (u * u)" by simp
  also have "\<dots> \<le> (1 / 4) * (u * (1 / 4))" by (rule mult_left_mono [OF u2]) simp
  finally have u3: "u * u * u \<le> u * (1 / 16)" by simp
  have u2': "0 \<le> u * u" and u3': "0 \<le> u * u * u" using assms(1) by simp_all
  have e1: "(1 - u) * (1 - u) * (1 - u) = 1 - 3 * u + 3 * (u * u) - u * u * u"
    by (simp add: algebra_simps)
  have e2: "(1 + u) * (1 + u) * (1 + u) = 1 + 3 * u + 3 * (u * u) + u * u * u"
    by (simp add: algebra_simps)
  from u2 u3 u2' u3' assms show "1 - 4 * u \<le> (1 - u) * (1 - u) * (1 - u)"
    unfolding e1 by linarith
  from u2 u3 u2' u3' assms show "(1 + u) * (1 + u) * (1 + u) \<le> 1 + 4 * u"
    unfolding e2 by linarith
qed

lemma int_times_float_error:
  fixes x :: rat
  assumes H: "0 < H" and x: "0 < x"
  shows "\<bar>py_int_times_float H (float_round x) - of_int H * x\<bar>
           \<le> of_int H * x * (4 * float_eps)"
proof -
  let ?lo = "1 - float_eps" and ?hi = "1 + float_eps"
  let ?h = "float_round (of_int H)" and ?r = "float_round x"
  let ?X = "of_int H * x :: rat"
  from H have h0: "(0::rat) < of_int H" by simp
  have lohi: "0 \<le> ?lo" "?lo \<le> ?hi" using float_eps_bounds by simp_all
  note hb = float_round_between [OF h0] and rb = float_round_between [OF x]
  note pb = product_between [OF h0 x lohi hb rb]
  have pp: "0 < ?h * ?r"
    using float_round_positive [OF h0] float_round_positive [OF x] by (rule mult_pos_pos)
  note yb = float_round_between [OF pp]
  have X: "0 \<le> ?X" using h0 x by simp
  note cb = cube_bounds [of float_eps]
  have "?X * (?lo * ?lo) * ?lo \<le> ?h * ?r * ?lo"
    using pb(1) lohi(1) by (rule mult_right_mono)
  with yb(1) have lower: "?X * (?lo * ?lo * ?lo) \<le> float_round (?h * ?r)"
    by (simp only: mult.assoc)
  have "0 \<le> ?hi" using lohi by linarith
  with pb(2) have "?h * ?r * ?hi \<le> ?X * (?hi * ?hi) * ?hi"
    by (rule mult_right_mono)
  with yb(2) have upper: "float_round (?h * ?r) \<le> ?X * (?hi * ?hi * ?hi)"
    by (simp only: mult.assoc)
  have "?X * (1 - 4 * float_eps) \<le> ?X * (?lo * ?lo * ?lo)"
    using cb(1) float_eps_bounds X by (intro mult_left_mono) simp_all
  with lower have l: "?X * (1 - 4 * float_eps) \<le> float_round (?h * ?r)" by linarith
  have "?X * (?hi * ?hi * ?hi) \<le> ?X * (1 + 4 * float_eps)"
    using cb(2) float_eps_bounds X by (intro mult_left_mono) simp_all
  with upper have u: "float_round (?h * ?r) \<le> ?X * (1 + 4 * float_eps)" by linarith
  have "\<bar>float_round (?h * ?r) - ?X\<bar> \<le> ?X * (4 * float_eps)"
    using l u by (simp add: abs_le_iff right_diff_distrib distrib_left)
  then show ?thesis
    by (simp only: py_int_times_float_def)
qed

lemma floor_near_quotient:
  fixes y :: rat
  assumes W: "0 < W" and k: "0 \<le> k"
    and near: "\<bar>y - of_int k / of_int W\<bar> < 1 / of_int W"
  shows "\<lfloor>y\<rfloor> = k div W \<or> (W dvd k \<and> \<lfloor>y\<rfloor> = k div W - 1)"
proof -
  let ?n = "k div W" and ?m = "k mod W"
  from W have Wr: "(0::rat) < of_int W" by simp
  have "k = ?n * W + ?m" by simp
  then have "(of_int k :: rat) = of_int ?n * of_int W + of_int ?m"
    by (metis of_int_add of_int_mult)
  then have x: "(of_int k / of_int W :: rat) = of_int ?n + of_int ?m / of_int W"
    using Wr by (simp add: field_simps)
  from near have lo: "of_int k / of_int W - 1 / of_int W < y"
    and hi: "y < of_int k / of_int W + 1 / of_int W" by (simp_all add: abs_less_iff)
  from W have m: "0 \<le> ?m" "?m < W" by simp_all
  show ?thesis
  proof (cases "?m = 0")
    case True
    then have d: "W dvd k" by (simp add: dvd_eq_mod_eq_0)
    from W have "1 \<le> W" by simp
    then have "(1::rat) \<le> of_int W" by (simp only: of_int_1_le_iff)
    then have "1 / (of_int W :: rat) \<le> 1" using Wr by (simp add: field_simps)
    with lo hi x True have "of_int ?n - 1 < y" "y < of_int ?n + 1" by simp_all
    then have "\<lfloor>y\<rfloor> = ?n \<or> \<lfloor>y\<rfloor> = ?n - 1"
      by (cases "of_int ?n \<le> y") (auto simp: floor_unique)
    with d show ?thesis by blast
  next
    case False
    with m have m1: "1 \<le> ?m" and m2: "?m + 1 \<le> W" by simp_all
    from m1 have r1: "(1::rat) \<le> of_int ?m" by (simp only: of_int_1_le_iff)
    from m2 have "(of_int (?m + 1) :: rat) \<le> of_int W" by (simp only: of_int_le_iff)
    then have r2: "(of_int ?m :: rat) + 1 \<le> of_int W" by simp
    from r1 Wr have "1 / of_int W \<le> (of_int ?m / of_int W :: rat)"
      by (simp add: divide_right_mono)
    moreover from r2 Wr have "(of_int ?m + 1) / of_int W \<le> (of_int W / of_int W :: rat)"
      by (intro divide_right_mono) simp_all
    then have "(of_int ?m / of_int W :: rat) \<le> 1 - 1 / of_int W"
      using Wr by (simp add: add_divide_distrib)
    ultimately have "of_int ?n \<le> y" "y < of_int ?n + 1"
      using lo hi x by simp_all
    then have "\<lfloor>y\<rfloor> = ?n" by (simp add: floor_unique)
    then show ?thesis by simp
  qed
qed

lemma new_height_near_quotient:
  assumes W: "0 < W" and H: "0 < H" "H < 2 ^ 31"
  shows "new_height W H = 300 * H div W \<or> (W dvd 300 * H \<and> new_height W H = 300 * H div W - 1)"
proof -
  let ?x = "of_int W_base / of_int (W * 2) :: rat"
  let ?y = "py_int_times_float H (float_round ?x)"
  from W have Wr: "(0::rat) < of_int W" by simp
  from H have Hr: "(0::rat) < of_int H" by simp
  have x: "?x = 300 / of_int W" by (simp add: W_base_def)
  have xpos: "0 < ?x" unfolding x using Wr by simp
  have X: "of_int H * ?x = of_int (300 * H) / of_int W" unfolding x by simp
  have "1200 * H < 2 ^ 53" using H by simp
  then have "(of_int (1200 * H) :: rat) < of_int (2 ^ 53)" by (simp only: of_int_less_iff)
  then have small: "of_int H * (1200 / 2 ^ 53) < (1::rat)" by simp
  have "of_int H * ?x * (4 * float_eps) = (of_int H * (1200 / 2 ^ 53)) / of_int W"
    unfolding x by (simp add: float_eps_def)
  also have "\<dots> < 1 / of_int W"
    using small Wr by (rule divide_strict_right_mono)
  finally have "of_int H * ?x * (4 * float_eps) < 1 / of_int W" .
  with int_times_float_error [OF H(1) xpos]
  have near: "\<bar>?y - of_int (300 * H) / of_int W\<bar> < 1 / of_int W"
    by (simp only: X)
  have "0 < float_round (of_int H) * float_round ?x"
    using float_round_positive [OF Hr] float_round_positive [OF xpos] by (rule mult_pos_pos)
  then have "0 < ?y"
    unfolding py_int_times_float_def by (rule float_round_positive)
  then have "new_height W H = \<lfloor>?y\<rfloor>"
    by (simp add: new_height_def py_int_of_float_def)
  moreover from H have "0 \<le> 300 * H" by simp
  ultimately show ?thesis
    using floor_near_quotient [OF W _ near] by simp
qed

lemma new_height_upscaled:
  assumes W: "0 < W" "W < 300" and H: "0 < H" "H < 2 ^ 31"
  shows "H \<le> new_height W H"
proof -
  from W H have le: "W * H \<le> 300 * H" by simp
  from W have "W * H div W \<le> 300 * H div W" using le by (intro zdiv_mono1) simp_all
  with W have d: "H \<le> 300 * H div W" by simp
  from new_height_near_quotient [OF W(1) H] show ?thesis
  proof
    assume "new_height W H = 300 * H div W"
    with d show ?thesis by simp
  next
    assume a: "W dvd 300 * H \<and> new_height W H = 300 * H div W - 1"
    then obtain n where n: "300 * H = W * n" by (auto simp: dvd_def)
    with W have q: "300 * H div W = n" by simp
    from W H have "W * H < 300 * H" by simp
    with n have "W * H < W * n" by simp
    with W have "H < n" by (simp add: mult_less_cancel_left)
    with a q show ?thesis by simp
  qed
qed

subsection \<open>The size of the comparison image\<close>

lemma combine_size:
  "combine I1 I2 = Inr c \<Longrightarrow> width c = width I1 * 2 \<and> height c = height I1"
  by (auto simp: combine_def Let_def split: sum.splits if_splits)

lemma combine_ok:
  assumes "0 < width I1" "0 < height I1" "bands I1 \<noteq> 2" "2 \<le> bands I1 \<longrightarrow> 3 \<le> bands I2"
  shows "combine I1 I2
       = Inr \<lparr>width = width I1 * 2, height = height I1,
              mode = (if 2 \<le> bands I1 then Mode_RGB else Mode_L)\<rparr>"
  using assms
  by (auto simp: combine_def pil_resize_def Let_def bands_def)

lemma make_grid_resize:
  "make_grid I1 I2 True =
     (case combine I1 I2 of
        Inl e \<Rightarrow> Inl e
      | Inr c \<Rightarrow>
          if width I1 = 0 then Inl ZeroDivisionError
          else pil_resize c (W_base, new_height (int (width I1)) (int (height I1))))"
  by (simp add: make_grid_def py_truediv_def new_height_def Let_def split: sum.splits)

lemma pil_resize_size:
  "pil_resize c (w, h) = Inr g \<Longrightarrow> int (width g) = w \<and> int (height g) = h"
  by (auto simp: pil_resize_def split: if_splits)

lemma make_grid_resize_size:
  assumes "make_grid I1 I2 True = Inr g"
  shows "width I1 \<noteq> 0 \<and> width g = 600
       \<and> int (height g) = new_height (int (width I1)) (int (height I1))"
  using assms pil_resize_size [of _ W_base "new_height (int (width I1)) (int (height I1))" g]
  by (auto simp: make_grid_resize W_base_def split: sum.splits if_splits)

text \<open>
  Claim C3, as the code has it. For an original image of width \<open>W\<close> and height \<open>H\<close>
  (both positive, \<open>H\<close> below \<open>2^31\<close>, \<open>2 W \<le> 300 H\<close>, bands that can be combined) and any
  restored image, composing with resizing gives an image of width 600 whose height is
  \<^verbatim>\<open>int(H * (600 / (2 * W)))\<close>: the product of the floats, truncated. That is the integer
  quotient of \<open>300 H\<close> by \<open>W\<close>, or one less than it when \<open>W\<close> divides \<open>300 H\<close> and the
  rounded product falls just below the quotient. It is not the rounded quotient.
\<close>

theorem make_grid_resized_height:
  assumes "0 < width I1" "0 < height I1" "height I1 < 2 ^ 31"
    and "bands I1 \<noteq> 2" "2 \<le> bands I1 \<longrightarrow> 3 \<le> bands I2"
    and "2 * width I1 \<le> 300 * height I1"
  shows "\<exists>g. make_grid I1 I2 True = Inr g \<and> width g = 600
           \<and> int (height g) = new_height (int (width I1)) (int (height I1))
           \<and> (int (height g) = 300 * int (height I1) div int (width I1)
              \<or> (int (width I1) dvd 300 * int (height I1)
                 \<and> int (height g) = 300 * int (height I1) div int (width I1) - 1))"
proof -
  let ?W = "int (width I1)" and ?H = "int (height I1)"
  from assms have W: "0 < ?W" and H: "0 < ?H" "?H < 2 ^ 31" by simp_all
  note q = new_height_near_quotient [OF W H]
  from assms(6) have "2 * ?W \<le> 300 * ?H" by linarith
  then have "2 * ?W div ?W \<le> 300 * ?H div ?W" using W by (intro zdiv_mono1) simp_all
  with W have "2 \<le> 300 * ?H div ?W" by simp
  with q have n1: "1 \<le> new_height ?W ?H" by auto
  let ?c = "\<lparr>width = width I1 * 2, height = height I1,
              mode = (if 2 \<le> bands I1 then Mode_RGB else Mode_L)\<rparr>"
  have "make_grid I1 I2 True = pil_resize ?c (W_base, new_height ?W ?H)"
    using assms(1) by (simp add: make_grid_resize combine_ok [OF assms(1,2,4,5)])
  moreover have "\<exists>g. pil_resize ?c (W_base, new_height ?W ?H) = Inr g"
    using n1 by (auto simp: pil_resize_def W_base_def)
  ultimately obtain g where mg: "make_grid I1 I2 True = Inr g" by auto
  from make_grid_resize_size [OF mg] q mg show ?thesis by auto
qed

theorem make_grid_resized_height_witness:
  "0 < width photo \<and> 0 < height photo \<and> height photo < 2 ^ 31 \<and> bands photo \<noteq> 2
   \<and> 2 \<le> bands photo \<and> 3 \<le> bands enhanced \<and> 2 * width photo \<le> 300 * height photo
   \<and> make_grid photo enhanced True = Inr \<lparr>width = 600, height = 3, mode = Mode_RGB\<rparr>
   \<and> new_height 400 5 = 3 \<and> 300 * 5 div 400 = (3::int)"
proof -
  have h: "0 < width photo" "0 < height photo" "height photo < 2 ^ 31" "bands photo \<noteq> 2"
    "2 \<le> bands photo \<longrightarrow> 3 \<le> bands enhanced" "2 * width photo \<le> 300 * height photo"
    by (simp_all add: photo_def enhanced_def bands_def)
  have e: "make_grid photo enhanced True = Inr \<lparr>width = 600, height = 3, mode = Mode_RGB\<rparr>"
    "new_height 400 5 = 3"
    by code_simp+
  have b: "2 \<le> bands photo" "3 \<le> bands enhanced"
    by (simp_all add: photo_def enhanced_def bands_def)
  from make_grid_resized_height [OF h] h b e show ?thesis by simp
qed

text \<open>
  At width 400 and height 5 the quotient is 3.75: the height of the result is 3,
  and rounding would give 4.
\<close>

theorem make_grid_height_is_rounded_counterexample:
  "make_grid photo enhanced True = Inr \<lparr>width = 600, height = 3, mode = Mode_RGB\<rparr>
   \<and> width photo = 400 \<and> height photo = 5
   \<and> round_half_even (5 * 600 / (2 * 400)) = 4"
  by code_simp

text \<open>
  Claim C4, as the code has it. With resizing the combined image is always brought to
  width 600, whatever its width was: it is reduced when \<open>2 W\<close> exceeds 600 and enlarged
  when \<open>2 W\<close> is below 600, in which case its height does not shrink either.
\<close>

theorem make_grid_resize_to_base_width:
  assumes "make_grid I1 I2 True = Inr g"
  shows "width g = 600
       \<and> (2 * width I1 < 600 \<longrightarrow> 2 * width I1 < width g)
       \<and> (600 < 2 * width I1 \<longrightarrow> width g < 2 * width I1)
       \<and> (2 * width I1 < 600 \<and> 0 < height I1 \<and> height I1 < 2 ^ 31 \<longrightarrow> height I1 \<le> height g)"
proof -
  note s = make_grid_resize_size [OF assms]
  have "height I1 \<le> height g" if a: "2 * width I1 < 600 \<and> 0 < height I1 \<and> height I1 < 2 ^ 31"
  proof -
    from s a have "0 < int (width I1)" "int (width I1) < 300" "0 < int (height I1)"
      "int (height I1) < 2 ^ 31" by simp_all
    from new_height_upscaled [OF this] s show ?thesis by simp
  qed
  with s show ?thesis by simp
qed

theorem make_grid_resize_to_base_width_witness:
  "make_grid small photo True = Inr \<lparr>width = 600, height = 300, mode = Mode_RGB\<rparr>
   \<and> 2 * width small < 600 \<and> 0 < height small \<and> height small < 2 ^ 31
   \<and> width small * 2 < width \<lparr>width = 600, height = 300, mode = Mode_RGB\<rparr>
   \<and> height small \<le> height \<lparr>width = 600, height = 300, mode = Mode_RGB\<rparr>"
proof -
  have e: "make_grid small photo True = Inr \<lparr>width = 600, height = 300, mode = Mode_RGB\<rparr>"
    by code_simp
  have h: "2 * width small < 600 \<and> 0 < height small \<and> height small < 2 ^ 31"
    by (simp add: small_def)
  from make_grid_resize_to_base_width [OF e] h e show ?thesis by simp
qed

text \<open>
  An original of 100 by 100 gives a combined image of 200 by 100, which the resizing
  enlarges to 600 by 300.
\<close>

theorem make_grid_never_upscales_counterexample:
  "make_grid small enhanced True = Inr \<lparr>width = 600, height = 300, mode = Mode_RGB\<rparr>
   \<and> 2 * width small \<le> 600
   \<and> combine small enhanced = Inr \<lparr>width = 200, height = 100, mode = Mode_RGB\<rparr>"
  by code_simp

end
